theory Spec2Isabelle
  imports Complex_Main "HOL-Library.Word" "HOL-Library.Log_Nat" "HOL-Library.Product_Lexorder"
begin

section \<open>JavaScript values used by the client\<close>

text \<open>
  A JavaScript string is a sequence of UTF-16 code units. Text typed by the user (folder
  names, search queries) is kept as such a sequence; URLs, HTTP verbs and messages, which
  the client builds from ASCII literals, are ordinary strings.
\<close>

type_synonym jsstring = "16 word list"

definition js :: "string \<Rightarrow> jsstring" where
  "js s = map of_char s"

text \<open>
  The code units that \<open>String.prototype.trim\<close> strips: ECMAScript's WhiteSpace
  (TAB, VT, FF, SP, NBSP, ZWNBSP and the category Zs) and LineTerminator (LF, CR, LS, PS).
  All of them lie in the basic plane, so the test is per code unit.
\<close>

definition is_whitespace :: "16 word \<Rightarrow> bool" where
  "is_whitespace c \<longleftrightarrow>
     c \<in> {0x0009, 0x000A, 0x000B, 0x000C, 0x000D, 0x0020, 0x00A0, 0x1680,
          0x2028, 0x2029, 0x202F, 0x205F, 0x3000, 0xFEFF}
     \<or> (0x2000 \<le> c \<and> c \<le> 0x200A)"

definition trim :: "jsstring \<Rightarrow> jsstring" where
  "trim s = rev (dropWhile is_whitespace (rev (dropWhile is_whitespace s)))"

text \<open>A string is blank when it is empty or consists of whitespace only.\<close>

definition blank :: "jsstring \<Rightarrow> bool" where
  "blank s = list_all is_whitespace s"

text \<open>
  Reading \<open>xs[i]\<close> from a JavaScript array: an index outside the array (negative
  ones included) yields \<open>undefined\<close>, here \<open>None\<close>.
\<close>

definition js_index :: "'a list \<Rightarrow> int \<Rightarrow> 'a option" where
  "js_index xs i = (if 0 \<le> i \<and> i < int (length xs) then Some (xs ! nat i) else None)"

text \<open>
  A number read from an object: the value, or \<open>undefined\<close> when the object has no
  such member. A relational comparison with \<open>undefined\<close> converts it to NaN and is
  false.
\<close>

datatype jsnum = Undefined | Num int

fun js_gt :: "jsnum \<Rightarrow> jsnum \<Rightarrow> bool" where
  "js_gt (Num a) (Num b) = (a > b)"
| "js_gt _ _ = False"

text \<open>Decimal rendering of an integer, as a template literal renders a whole number.\<close>

fun digits :: "nat \<Rightarrow> string" where
  "digits n = (if n < 10 then [''0123456789'' ! n]
               else digits (n div 10) @ [''0123456789'' ! (n mod 10)])"

definition String_int :: "int \<Rightarrow> string" where
  "String_int i = (if i < 0 then CHR ''-'' # digits (nat (- i)) else digits (nat i))"

text \<open>A template literal renders an absent value as the text \<open>undefined\<close>.\<close>

definition String_opt_int :: "int option \<Rightarrow> string" where
  "String_opt_int v = (case v of None \<Rightarrow> ''undefined'' | Some i \<Rightarrow> String_int i)"

section \<open>The client's data types (types.ts)\<close>

record FolderSummary =
  fs_id :: int
  fs_name :: jsstring
  fs_created_at :: jsstring

record FileItem =
  fi_id :: int
  fi_name :: jsstring
  fi_mime_type :: jsstring
  fi_size_bytes :: nat
  fi_created_at :: jsstring

record FolderContents =
  fc_id :: int
  fc_name :: jsstring
  breadcrumbs :: "FolderSummary list"
  folders :: "FolderSummary list"
  files :: "FileItem list"
  total_folders :: int
  total_files :: int
  folder_page :: int
  folder_page_size :: int
  file_page :: int
  file_page_size :: int

record SearchResults =
  sr_folders :: "FolderSummary list"
  sr_files :: "FileItem list"

section \<open>Requests and responses\<close>

text \<open>
  What the client hands to \<open>fetch\<close>: the URL and the members of the init object.
  A member the call site does not write is absent (\<open>None\<close>); \<open>fetch\<close> then applies
  its defaults (method GET, credentials same-origin).
\<close>

datatype body_field = TextField jsstring | NumberField int | FileField

record request =
  url :: string
  http_method :: "string option"
  headers :: "(string \<times> string) list"
  credentials :: "string option"
  body :: "(string \<times> body_field) list option"

text \<open>
  The outcome of awaiting \<open>fetch\<close> and then \<open>response.json()\<close>: the promise is
  rejected with an error message, or it resolves to a response with its \<open>ok\<close> flag,
  its status and its decoded payload (\<open>Inl\<close> when decoding throws).
\<close>

datatype 'a outcome = Rejected string | Response bool nat "string + 'a"

definition API_BASE_URL :: string where
  "API_BASE_URL = ''http://localhost:8000''"

section \<open>CreateFolderDialog and RenameDialog\<close>

text \<open>
  The dialogs hold the typed name; submitting calls the callbacks the parent passed in.
  The calls a handler makes are returned in order.
\<close>

datatype dialog_call = PreventDefault | OnConfirm jsstring | SetName jsstring | OnOpenChange bool

definition CreateFolderDialog_handleSubmit :: "jsstring \<Rightarrow> dialog_call list" where
  "CreateFolderDialog_handleSubmit name =
     PreventDefault #
     (if trim name \<noteq> [] then [OnConfirm (trim name), SetName [], OnOpenChange False] else [])"

definition CreateFolderDialog_submit_disabled :: "jsstring \<Rightarrow> bool" where
  "CreateFolderDialog_submit_disabled name \<longleftrightarrow> trim name = []"

definition RenameDialog_handleSubmit :: "jsstring \<Rightarrow> jsstring \<Rightarrow> dialog_call list" where
  "RenameDialog_handleSubmit currentName name =
     PreventDefault #
     (if trim name \<noteq> [] \<and> name \<noteq> currentName
      then [OnConfirm (trim name), OnOpenChange False] else [])"

definition RenameDialog_submit_disabled :: "jsstring \<Rightarrow> jsstring \<Rightarrow> bool" where
  "RenameDialog_submit_disabled currentName name \<longleftrightarrow> trim name = [] \<or> name = currentName"

text \<open>The names a run of a handler passed to \<open>onConfirm\<close>.\<close>

fun confirmed :: "dialog_call list \<Rightarrow> jsstring list" where
  "confirmed [] = []"
| "confirmed (OnConfirm n # cs) = n # confirmed cs"
| "confirmed (_ # cs) = confirmed cs"

section \<open>SearchBar\<close>

record SearchBar =
  query :: jsstring
  results :: "SearchResults option"
  isSearching :: bool

definition search_request :: "string \<Rightarrow> request" where
  "search_request encoded =
     \<lparr>url = API_BASE_URL @ ''/search?q='' @ encoded, http_method = None, headers = [],
      credentials = Some ''include'', body = None\<rparr>"

text \<open>
  \<open>handleSearch\<close> returns the component's new state and the requests it issued.
  \<open>encodeURIComponent\<close> is the runtime's (it throws on a lone surrogate, here
  \<open>None\<close>) and \<open>fetch\<close> is the server's answer; both are parameters. Everything
  thrown inside the \<open>try\<close> is caught and logged, and \<open>finally\<close> clears the flag.
\<close>

definition handleSearch ::
  "(jsstring \<Rightarrow> string option) \<Rightarrow> (request \<Rightarrow> SearchResults outcome) \<Rightarrow> jsstring \<Rightarrow>
   SearchBar \<Rightarrow> SearchBar \<times> request list" where
  "handleSearch encodeURIComponent fetch searchQuery st =
     (let st1 = st\<lparr>query := searchQuery\<rparr> in
      if trim searchQuery = [] then (st1\<lparr>results := None\<rparr>, [])
      else
        let st2 = st1\<lparr>isSearching := True\<rparr> in
        case encodeURIComponent searchQuery of
          None \<Rightarrow> (st2\<lparr>isSearching := False\<rparr>, [])
        | Some encoded \<Rightarrow>
            let req = search_request encoded in
            (case fetch req of
               Rejected _ \<Rightarrow> (st2\<lparr>isSearching := False\<rparr>, [req])
             | Response ok _ payload \<Rightarrow>
                 if ok then
                   (case payload of
                      Inl _ \<Rightarrow> (st2\<lparr>isSearching := False\<rparr>, [req])
                    | Inr data \<Rightarrow> (st2\<lparr>results := Some data, isSearching := False\<rparr>, [req]))
                 else (st2\<lparr>isSearching := False\<rparr>, [req])))"

text \<open>The result panel is rendered only while \<open>results\<close> is set.\<close>

definition results_shown :: "SearchBar \<Rightarrow> bool" where
  "results_shown st \<longleftrightarrow> results st \<noteq> None"

section \<open>App: state, requests and handlers\<close>

record AsyncState =
  loading :: bool
  error :: "string option"

record DialogState =
  createFolder :: bool
  renameFolder :: "bool \<times> FolderSummary option"
  renameFile :: "bool \<times> FileItem option"
  deleteFolder :: "bool \<times> FolderSummary option"
  deleteFile :: "bool \<times> FileItem option"

text \<open>
  The component's state, together with a log of the requests it has issued and of the
  alerts it has raised, in order.
\<close>

record App =
  currentFolder :: "FolderContents option"
  state :: AsyncState
  folderPage :: int
  filePage :: int
  dialogs :: DialogState
  requests :: "request list"
  alerts :: "string list"

text \<open>The optional second argument of \<open>loadFolder\<close>; each member is optional too.\<close>

record load_options =
  opt_folderPage :: "int option"
  opt_filePage :: "int option"

text \<open>The server: what each kind of request is answered with.\<close>

record server =
  fetch_contents :: "request \<Rightarrow> FolderContents outcome"
  fetch_root :: "request \<Rightarrow> FolderSummary outcome"
  fetch_plain :: "request \<Rightarrow> unit outcome"

subsection \<open>The requests, one per call site of fetch\<close>

definition loadFolder_request :: "int \<Rightarrow> int \<Rightarrow> int \<Rightarrow> request" where
  "loadFolder_request folderId nextFolderPage nextFilePage =
     \<lparr>url = API_BASE_URL @ ''/folders/'' @ String_int folderId @ ''/contents?''
            @ ''folder_page='' @ String_int nextFolderPage @ ''&folder_page_size=50''
            @ ''&file_page='' @ String_int nextFilePage @ ''&file_page_size=50'',
      http_method = None, headers = [], credentials = Some ''include'', body = None\<rparr>"

definition loadRoot_request :: "int option \<Rightarrow> request" where
  "loadRoot_request dataroomId =
     \<lparr>url = API_BASE_URL @ ''/folders/root?dataroom_id='' @ String_opt_int dataroomId,
      http_method = None, headers = [], credentials = Some ''include'', body = None\<rparr>"

definition loadDatarooms_request :: request where
  "loadDatarooms_request =
     \<lparr>url = API_BASE_URL @ ''/datarooms'',
      http_method = None, headers = [], credentials = Some ''include'', body = None\<rparr>"

definition createFolder_request :: "jsstring \<Rightarrow> int \<Rightarrow> request" where
  "createFolder_request name parent_id =
     \<lparr>url = API_BASE_URL @ ''/folders'',
      http_method = Some ''POST'', headers = [(''Content-Type'', ''application/json'')],
      credentials = None,
      body = Some [(''name'', TextField name), (''parent_id'', NumberField parent_id)]\<rparr>"

definition renameFolder_request :: "int \<Rightarrow> jsstring \<Rightarrow> request" where
  "renameFolder_request folderId newName =
     \<lparr>url = API_BASE_URL @ ''/folders/'' @ String_int folderId,
      http_method = Some ''PATCH'', headers = [(''Content-Type'', ''application/json'')],
      credentials = None, body = Some [(''name'', TextField newName)]\<rparr>"

definition deleteFolder_request :: "int \<Rightarrow> request" where
  "deleteFolder_request folderId =
     \<lparr>url = API_BASE_URL @ ''/folders/'' @ String_int folderId,
      http_method = Some ''DELETE'', headers = [], credentials = None, body = None\<rparr>"

definition uploadFile_request :: "int \<Rightarrow> request" where
  "uploadFile_request folderId =
     \<lparr>url = API_BASE_URL @ ''/files?folder_id='' @ String_int folderId,
      http_method = Some ''POST'', headers = [], credentials = None,
      body = Some [(''upload'', FileField)]\<rparr>"

definition renameFile_request :: "int \<Rightarrow> jsstring \<Rightarrow> request" where
  "renameFile_request fileId newName =
     \<lparr>url = API_BASE_URL @ ''/files/'' @ String_int fileId,
      http_method = Some ''PATCH'', headers = [(''Content-Type'', ''application/json'')],
      credentials = None, body = Some [(''name'', TextField newName)]\<rparr>"

definition deleteFile_request :: "int \<Rightarrow> request" where
  "deleteFile_request fileId =
     \<lparr>url = API_BASE_URL @ ''/files/'' @ String_int fileId,
      http_method = Some ''DELETE'', headers = [], credentials = None, body = None\<rparr>"

text \<open>
  Every request a signed-in session issues against the tree and the search endpoints,
  one of each call site, for given arguments.
\<close>

definition engine_requests :: "int \<Rightarrow> int \<Rightarrow> jsstring \<Rightarrow> string \<Rightarrow> request list" where
  "engine_requests folderId fileId name encoded =
     [loadFolder_request folderId 1 1, loadRoot_request (Some folderId),
      search_request encoded, createFolder_request name folderId,
      renameFolder_request folderId name, deleteFolder_request folderId,
      uploadFile_request folderId, renameFile_request fileId name,
      deleteFile_request fileId]"

definition sends_credentials :: "request \<Rightarrow> bool" where
  "sends_credentials r \<longleftrightarrow> credentials r = Some ''include''"

subsection \<open>Loading a folder\<close>

definition log_request :: "request \<Rightarrow> App \<Rightarrow> App" where
  "log_request r app = app\<lparr>requests := requests app @ [r]\<rparr>"

definition failed :: "string \<Rightarrow> App \<Rightarrow> App" where
  "failed msg app = app\<lparr>state := \<lparr>loading = False, error = Some msg\<rparr>\<rparr>"

definition alert :: "string \<Rightarrow> App \<Rightarrow> App" where
  "alert msg app = app\<lparr>alerts := alerts app @ [msg]\<rparr>"

definition loadFolder :: "server \<Rightarrow> int \<Rightarrow> load_options option \<Rightarrow> App \<Rightarrow> App" where
  "loadFolder srv folderId options app =
     (let nextFolderPage =
            (case options of
               None \<Rightarrow> folderPage app
             | Some opts \<Rightarrow> (case opt_folderPage opts of None \<Rightarrow> folderPage app | Some p \<Rightarrow> p));
          nextFilePage =
            (case options of
               None \<Rightarrow> filePage app
             | Some opts \<Rightarrow> (case opt_filePage opts of None \<Rightarrow> filePage app | Some p \<Rightarrow> p));
          app1 = app\<lparr>state := \<lparr>loading = True, error = None\<rparr>\<rparr>;
          req = loadFolder_request folderId nextFolderPage nextFilePage;
          app2 = log_request req app1
      in case fetch_contents srv req of
           Rejected msg \<Rightarrow> failed msg app2
         | Response ok status payload \<Rightarrow>
             if \<not> ok then failed (''Unable to load folder ('' @ digits status @ '')'') app2
             else (case payload of
                     Inl msg \<Rightarrow> failed msg app2
                   | Inr data \<Rightarrow>
                       app2\<lparr>currentFolder := Some data,
                            folderPage := folder_page data,
                            filePage := file_page data,
                            state := \<lparr>loading = False, error = None\<rparr>\<rparr>))"


subsection \<open>Creating and deleting a folder\<close>

definition handleCreateFolder :: "server \<Rightarrow> jsstring \<Rightarrow> App \<Rightarrow> App" where
  "handleCreateFolder srv name app =
     (case currentFolder app of
        None \<Rightarrow> app
      | Some cf \<Rightarrow>
          let req = createFolder_request name (fc_id cf);
              app1 = log_request req app
          in case fetch_plain srv req of
               Rejected msg \<Rightarrow> alert msg app1
             | Response ok status payload \<Rightarrow>
                 if \<not> ok then alert ''Failed to create folder'' app1
                 else loadFolder srv (fc_id cf) None app1)"


text \<open>
  Opening a file: the download is not fetched but opened in a new window, with the two
  arguments below; no init object, and so no credentials member, is involved.
\<close>

definition handleOpenFile :: "FileItem \<Rightarrow> string \<times> string" where
  "handleOpenFile file =
     (API_BASE_URL @ ''/files/'' @ String_int (fi_id file) @ ''/download'', ''_blank'')"

subsection \<open>What the page renders\<close>

text \<open>
  The breadcrumb bar: one button per entry of \<open>currentFolder.breadcrumbs\<close>, in order;
  a click loads the entry's folder; the button is disabled, and has no separator after
  it, where \<open>index === breadcrumbItems.length - 1\<close>.
\<close>

record crumb_button =
  cb_label :: jsstring
  cb_loads :: int
  cb_disabled :: bool
  cb_separator :: bool

definition breadcrumbItems :: "FolderContents option \<Rightarrow> FolderSummary list" where
  "breadcrumbItems cf = (case cf of None \<Rightarrow> [] | Some c \<Rightarrow> breadcrumbs c)"

definition breadcrumb_nav :: "FolderContents option \<Rightarrow> crumb_button list" where
  "breadcrumb_nav cf =
     (let items = breadcrumbItems cf in
      map (\<lambda>(index, crumb).
             \<lparr>cb_label = fs_name crumb, cb_loads = fs_id crumb,
              cb_disabled = (int index = int (length items) - 1),
              cb_separator = (int index \<noteq> int (length items) - 1)\<rparr>)
          (enumerate 0 items))"

text \<open>
  The pagination block. Its guard compares the totals with \<open>currentFolder.page_size\<close>,
  a member that \<open>FolderContents\<close> does not declare (it declares \<open>folder_page_size\<close>
  and \<open>file_page_size\<close>); what that read yields is the parameter \<open>page_size\<close>,
  \<open>Undefined\<close> for a response of the declared shape. When the guard holds, building
  the Previous button evaluates \<open>currentPage <= 1\<close>, and \<open>currentPage\<close> is declared
  nowhere in the module, so rendering throws a ReferenceError. The buttons' handlers
  would call \<open>loadFolder(currentFolder.id, currentPage - 1)\<close> and
  \<open>loadFolder(currentFolder.id, currentPage + 1)\<close>.
\<close>

datatype pagination_block = Hidden | RenderThrows string | Buttons "load_options list"

definition pagination :: "jsnum \<Rightarrow> FolderContents option \<Rightarrow> pagination_block" where
  "pagination page_size cf =
     (case cf of
        None \<Rightarrow> Hidden
      | Some c \<Rightarrow>
          if js_gt (Num (total_folders c)) page_size \<or> js_gt (Num (total_files c)) page_size
          then RenderThrows ''ReferenceError: currentPage is not defined''
          else Hidden)"

subsection \<open>formatBytes\<close>

definition units :: "string list" where
  "units = [''B'', ''KB'', ''MB'', ''GB'', ''TB'']"

text \<open>
  \<open>formatBytes(size: number)\<close>: a size is a JavaScript number, here a real, and the
  arithmetic is taken over the reals. \<open>unit_index\<close> is the constant \<open>index\<close> that
  the function computes for a positive size,
  \<open>Math.min(Math.floor(Math.log(size) / Math.log(1024)), units.length - 1)\<close>.
\<close>

definition unit_index :: "real \<Rightarrow> int" where
  "unit_index sz = min \<lfloor>ln sz / ln 1024\<rfloor> (int (length units) - 1)"

text \<open>
  \<open>Number.prototype.toFixed\<close> is the runtime's and is a parameter. A unit read outside
  the array is \<open>undefined\<close> and is rendered as that word. For a negative size
  \<open>Math.log\<close> yields NaN, which \<open>Math.floor\<close>, \<open>Math.min\<close>,
  \<open>Math.pow\<close> and the division pass on: \<open>toFixed\<close> then prints \<open>NaN\<close> and
  the unit read, at index NaN, is \<open>undefined\<close>.
\<close>

definition formatBytes :: "(real \<Rightarrow> nat \<Rightarrow> string) \<Rightarrow> real \<Rightarrow> string" where
  "formatBytes toFixed sz =
     (if sz = 0 then ''0 B''
      else if sz < 0 then ''NaN undefined''
      else
        let index = unit_index sz;
            v = sz / (1024 powi index)
        in toFixed v (if v \<ge> 10 \<or> index = 0 then 0 else 1) @ '' '' @
           (case js_index units index of None \<Rightarrow> ''undefined'' | Some u \<Rightarrow> u))"

section \<open>Sample data\<close>

text \<open>
  The folders of the client's test suite (App.test.tsx): the root "Acme Dataroom" with
  the subfolder "Project Docs", completed to the declared shape of a listing, and a
  server that answers every request successfully.
\<close>

definition baseRootFolder :: FolderSummary where
  "baseRootFolder =
     \<lparr>fs_id = 1, fs_name = js ''Acme Dataroom'', fs_created_at = js ''2024-01-01T00:00:00Z''\<rparr>"

definition projectDocs :: FolderSummary where
  "projectDocs =
     \<lparr>fs_id = 2, fs_name = js ''Project Docs'', fs_created_at = js ''2024-01-02T00:00:00Z''\<rparr>"

definition rootListing :: FolderContents where
  "rootListing =
     \<lparr>fc_id = 1, fc_name = js ''Acme Dataroom'', breadcrumbs = [baseRootFolder],
      folders = [projectDocs], files = [], total_folders = 1, total_files = 0,
      folder_page = 1, folder_page_size = 50, file_page = 1, file_page_size = 50\<rparr>"

definition docsListing :: FolderContents where
  "docsListing =
     \<lparr>fc_id = 2, fc_name = js ''Project Docs'', breadcrumbs = [baseRootFolder, projectDocs],
      folders = [],
      files = [\<lparr>fi_id = 22, fi_name = js ''Project Plan.pdf'',
                fi_mime_type = js ''application/pdf'', fi_size_bytes = 4096,
                fi_created_at = js ''2024-01-05T00:00:00Z''\<rparr>],
      total_folders = 0, total_files = 1,
      folder_page = 1, folder_page_size = 50, file_page = 1, file_page_size = 50\<rparr>"

text \<open>A folder with more children than fit on one page of 50.\<close>

definition largeListing :: FolderContents where
  "largeListing = rootListing\<lparr>total_folders := 120, total_files := 75\<rparr>"






section \<open>The tree engine and the metadata repository\<close>

text \<open>
  The server side of the repository (the Flask backend) is not part of the sources at
  hand. The definitions of this section are modelled from the specification's data model
  (section 3), component design (section 4.1) and error taxonomy (section 7).
\<close>

text \<open>Modelled from the spec: the Folder row of the metadata repository (the backend's
  model classes are missing).\<close>

record Folder =
  folder_id :: int
  folder_name :: jsstring
  folder_parent :: "int option"
  folder_owner :: int
  folder_created_at :: nat

text \<open>Modelled from the spec: the File row of the metadata repository (the backend's
  model classes are missing).\<close>

record File =
  file_id :: int
  file_name :: jsstring
  file_mime_type :: jsstring
  file_size_bytes :: nat
  file_folder :: int
  file_content :: int
  file_created_at :: nat

text \<open>Modelled from the spec: the state of the metadata repository, its folder rows and
  its file rows (the backend's database is missing).\<close>

record repository =
  repo_folders :: "Folder list"
  repo_files :: "File list"

text \<open>Modelled from the spec: the error taxonomy of section 7, and the failure of the
  repository in the middle of a transaction (the backend's error types are missing).\<close>

datatype engine_error =
  NotFound | InvalidArgument | Forbidden | TooLarge | UnsupportedType | Unauthorized
  | InvariantViolation | TransactionFailed

text \<open>Modelled from the spec: looking a folder up by id (the backend's query is
  missing).\<close>

definition find_folder :: "repository \<Rightarrow> int \<Rightarrow> Folder option" where
  "find_folder repo fid = find (\<lambda>f. folder_id f = fid) (repo_folders repo)"

text \<open>Modelled from the spec: the ids of the folders the repository holds (the backend's
  database is missing).\<close>

definition folder_ids :: "repository \<Rightarrow> int set" where
  "folder_ids repo = folder_id ` set (repo_folders repo)"

subsection \<open>Breadcrumbs\<close>

text \<open>Modelled from the spec: breadcrumbs(folder_id) "walks parent references from
  folder_id up to the root, inclusive of both ends, then reverses to produce root-first
  order", fails with NotFound if the folder is absent and rejects a cyclic parent chain
  with an Invariant Violation (the backend's breadcrumb function is missing).
  \<open>walk_up\<close> is the walk, with the ids already passed; \<open>breadcrumbs_of\<close> reverses
  it.\<close>

function walk_up :: "repository \<Rightarrow> int list \<Rightarrow> int \<Rightarrow> engine_error + Folder list" where
  "walk_up repo visited fid =
     (case find_folder repo fid of
        None \<Rightarrow> Inl NotFound
      | Some f \<Rightarrow>
          if fid \<in> set visited then Inl InvariantViolation
          else (case folder_parent f of
                  None \<Rightarrow> Inr [f]
                | Some p \<Rightarrow>
                    (case walk_up repo (fid # visited) p of
                       Inl e \<Rightarrow> Inl e
                     | Inr fs \<Rightarrow> Inr (f # fs))))"
  by pat_completeness auto
termination
proof (relation "measure (\<lambda>(repo, visited, fid). card (folder_ids repo - set visited))")
  show "wf (measure (\<lambda>(repo, visited, fid). card (folder_ids repo - set visited)))"
    by simp
next
  fix repo :: repository and visited :: "int list" and fid :: int and f :: Folder and p :: int
  assume found: "find_folder repo fid = Some f" and fresh: "fid \<notin> set visited"
  from found have "fid \<in> folder_ids repo"
    by (auto simp: find_folder_def folder_ids_def find_Some_iff)
  with fresh have "folder_ids repo - set (fid # visited) \<subset> folder_ids repo - set visited"
    by auto
  moreover have "finite (folder_ids repo - set visited)"
    by (simp add: folder_ids_def)
  ultimately have "card (folder_ids repo - set (fid # visited)) < card (folder_ids repo - set visited)"
    by (rule psubset_card_mono [rotated])
  then show "((repo, fid # visited, p), (repo, visited, fid))
             \<in> measure (\<lambda>(repo, visited, fid). card (folder_ids repo - set visited))"
    by simp
qed

text \<open>Modelled from the spec: breadcrumbs(folder_id), the walk reversed "to produce
  root-first order" (the backend's breadcrumb function is missing).\<close>

definition breadcrumbs_of :: "repository \<Rightarrow> int \<Rightarrow> engine_error + Folder list" where
  "breadcrumbs_of repo fid =
     (case walk_up repo [] fid of Inl e \<Rightarrow> Inl e | Inr fs \<Rightarrow> Inr (rev fs))"

text \<open>Modelled from the spec: the depth of a folder and its dataroom root, read off the
  data model's parent references ("the parent chain from any folder reaches the root in
  finitely many steps"): a folder without a parent is a root, at depth 0; a folder whose
  parent is at depth \<open>n\<close> is at depth \<open>n + 1\<close> and has its parent's root.\<close>

inductive at_depth :: "repository \<Rightarrow> int \<Rightarrow> nat \<Rightarrow> Folder \<Rightarrow> bool"
  for repo :: repository where
  root: "find_folder repo fid = Some f \<Longrightarrow> folder_parent f = None \<Longrightarrow> at_depth repo fid 0 f"
| child: "find_folder repo fid = Some f \<Longrightarrow> folder_parent f = Some p \<Longrightarrow>
          at_depth repo p n r \<Longrightarrow> at_depth repo fid (Suc n) r"

subsection \<open>Cascade delete\<close>

text \<open>Modelled from the spec: the ids of the folders directly under a folder (the
  backend's query is missing).\<close>

definition child_ids :: "repository \<Rightarrow> int \<Rightarrow> int list" where
  "child_ids repo x = map folder_id (filter (\<lambda>f. folder_parent f = Some x) (repo_folders repo))"

text \<open>Modelled from the spec: the "depth-first traversal collecting all descendant
  folder ids", written as the "explicit worklist/stack traversal (arena of visited ids)"
  of section 9 (the backend's cascade delete is missing). The result lists a folder
  before the folders above it.\<close>

function collect :: "repository \<Rightarrow> int list \<Rightarrow> int list \<Rightarrow> int list" where
  "collect repo [] seen = seen"
| "collect repo (x # work) seen =
     (if x \<in> set seen \<or> find_folder repo x = None then collect repo work seen
      else collect repo (child_ids repo x @ work) (x # seen))"
  by pat_completeness auto
termination
proof (relation "measures [\<lambda>(repo, work, seen). card (folder_ids repo - set seen),
                           \<lambda>(repo, work, seen). length work]")
  show "wf (measures [\<lambda>(repo, work, seen). card (folder_ids repo - set seen),
                      \<lambda>(repo, work, seen). length work])"
    by simp
next
  fix repo :: repository and x :: int and work seen :: "int list"
  show "((repo, work, seen), (repo, x # work, seen))
        \<in> measures [\<lambda>(repo, work, seen). card (folder_ids repo - set seen),
                     \<lambda>(repo, work, seen). length work]"
    by simp
next
  fix repo :: repository and x :: int and work seen :: "int list"
  assume "\<not> (x \<in> set seen \<or> find_folder repo x = None)"
  then have fresh: "x \<notin> set seen" and "find_folder repo x \<noteq> None"
    by simp_all
  then have "x \<in> folder_ids repo"
    by (auto simp: find_folder_def folder_ids_def find_Some_iff)
  with fresh have "folder_ids repo - set (x # seen) \<subset> folder_ids repo - set seen"
    by auto
  moreover have "finite (folder_ids repo - set seen)"
    by (simp add: folder_ids_def)
  ultimately have "card (folder_ids repo - set (x # seen)) < card (folder_ids repo - set seen)"
    by (rule psubset_card_mono [rotated])
  then show "((repo, child_ids repo x @ work, x # seen), (repo, x # work, seen))
        \<in> measures [\<lambda>(repo, work, seen). card (folder_ids repo - set seen),
                     \<lambda>(repo, work, seen). length work]"
    by simp
qed

text \<open>Modelled from the spec: the subtree of a folder \<open>t\<close>, "every descendant folder
  ... plus the folder itself", read off the parent references: \<open>t\<close> itself and every
  folder whose parent is in the subtree.\<close>

inductive in_subtree :: "repository \<Rightarrow> int \<Rightarrow> int \<Rightarrow> bool"
  for repo :: repository and t :: int where
  top: "in_subtree repo t t"
| below: "in_subtree repo t p \<Longrightarrow> f \<in> set (repo_folders repo) \<Longrightarrow> folder_parent f = Some p \<Longrightarrow>
          in_subtree repo t (folder_id f)"

text \<open>Modelled from the spec: the rows of the metadata repository, named by their ids
  (the backend's database is missing).\<close>

datatype row = FileRow int | FolderRow int

text \<open>Modelled from the spec: the removal of one metadata row (the backend's database is
  missing).\<close>

fun delete_row :: "row \<Rightarrow> repository \<Rightarrow> repository" where
  "delete_row (FileRow i) repo = repo\<lparr>repo_files := filter (\<lambda>x. file_id x \<noteq> i) (repo_files repo)\<rparr>"
| "delete_row (FolderRow i) repo =
     repo\<lparr>repo_folders := filter (\<lambda>f. folder_id f \<noteq> i) (repo_folders repo)\<rparr>"

text \<open>Modelled from the spec: the deletes of one transaction, applied in order to the
  transaction's working state. The repository may fail at any row (\<open>fails\<close> says at
  which); the transaction then has no result.\<close>

fun delete_rows :: "(row \<Rightarrow> bool) \<Rightarrow> row list \<Rightarrow> repository \<Rightarrow> repository option" where
  "delete_rows fails [] repo = Some repo"
| "delete_rows fails (r # rs) repo =
     (if fails r then None else delete_rows fails rs (delete_row r repo))"

text \<open>Modelled from the spec: delete(node_id) for a folder. It "fails with Forbidden if
  the folder is a root; otherwise performs cascade delete": it collects the subtree, then
  deletes "all metadata rows for the collected set plus the folder itself,
  innermost-first", the files' rows first, as "a single logical transaction against the
  metadata repository"; a failure partway "must roll back fully", so the repository is
  then the one before the call (the backend's delete is missing). The content store is
  left out: its failures are logged, not surfaced.\<close>

definition cascade_delete ::
  "(row \<Rightarrow> bool) \<Rightarrow> repository \<Rightarrow> int \<Rightarrow> (engine_error + unit) \<times> repository" where
  "cascade_delete fails repo fid =
     (case find_folder repo fid of
        None \<Rightarrow> (Inl NotFound, repo)
      | Some f \<Rightarrow>
          if folder_parent f = None then (Inl Forbidden, repo)
          else
            let subtree = collect repo [fid] [];
                file_rows = map (FileRow \<circ> file_id)
                              (filter (\<lambda>x. file_folder x \<in> set subtree) (repo_files repo));
                rows = file_rows @ map FolderRow subtree
            in case delete_rows fails rows repo of
                 None \<Rightarrow> (Inl TransactionFailed, repo)
               | Some repo' \<Rightarrow> (Inr (), repo'))"

subsection \<open>Listing a folder\<close>

text \<open>Modelled from the spec: one page of a collection, pages counted from 1 (the
  backend's pagination is missing).\<close>

definition page_of :: "nat \<Rightarrow> nat \<Rightarrow> 'a list \<Rightarrow> 'a list" where
  "page_of page page_size xs = take page_size (drop ((page - 1) * page_size) xs)"

text \<open>Modelled from the spec: the children of a folder, "each ordered by a stable key
  (creation time then id, ascending)" (the backend's queries are missing).\<close>

definition child_folders :: "repository \<Rightarrow> int \<Rightarrow> Folder list" where
  "child_folders repo fid =
     sort_key (\<lambda>f. (folder_created_at f, folder_id f))
       (filter (\<lambda>f. folder_parent f = Some fid) (repo_folders repo))"

text \<open>Modelled from the spec: the files of a folder, in the same stable order (the
  backend's queries are missing).\<close>

definition child_files :: "repository \<Rightarrow> int \<Rightarrow> File list" where
  "child_files repo fid =
     sort_key (\<lambda>x. (file_created_at x, file_id x))
       (filter (\<lambda>x. file_folder x = fid) (repo_files repo))"

text \<open>Modelled from the spec: the summaries sent to the client; \<open>stamp\<close> renders a
  timestamp (the backend's serialisers are missing).\<close>

definition folder_summary :: "(nat \<Rightarrow> jsstring) \<Rightarrow> Folder \<Rightarrow> FolderSummary" where
  "folder_summary stamp f =
     \<lparr>fs_id = folder_id f, fs_name = folder_name f, fs_created_at = stamp (folder_created_at f)\<rparr>"

text \<open>Modelled from the spec: the file entry sent to the client (the backend's
  serialisers are missing).\<close>

definition file_item :: "(nat \<Rightarrow> jsstring) \<Rightarrow> File \<Rightarrow> FileItem" where
  "file_item stamp x =
     \<lparr>fi_id = file_id x, fi_name = file_name x, fi_mime_type = file_mime_type x,
      fi_size_bytes = file_size_bytes x, fi_created_at = stamp (file_created_at x)\<rparr>"

text \<open>Modelled from the spec: list_children(folder_id, folder_page, folder_page_size,
  file_page, file_page_size). It "fails with NotFound if folder_id absent" and with
  InvalidArgument on "malformed pagination parameters"; folders and files are paginated
  independently; it "returns total_folders and total_files counts (full counts, not just
  current page)"; the response carries the breadcrumbs and echoes the four paging
  parameters (the backend's listing endpoint is missing).\<close>

definition list_children ::
  "(nat \<Rightarrow> jsstring) \<Rightarrow> repository \<Rightarrow> int \<Rightarrow> int \<Rightarrow> int \<Rightarrow> int \<Rightarrow> int \<Rightarrow>
   engine_error + FolderContents" where
  "list_children stamp repo fid fpage fsize flpage flsize =
     (case find_folder repo fid of
        None \<Rightarrow> Inl NotFound
      | Some f \<Rightarrow>
          if fpage < 1 \<or> fsize < 1 \<or> flpage < 1 \<or> flsize < 1 then Inl InvalidArgument
          else (case breadcrumbs_of repo fid of
                  Inl e \<Rightarrow> Inl e
                | Inr crumbs \<Rightarrow>
                    Inr \<lparr>fc_id = folder_id f, fc_name = folder_name f,
                         breadcrumbs = map (folder_summary stamp) crumbs,
                         folders = map (folder_summary stamp)
                                     (page_of (nat fpage) (nat fsize) (child_folders repo fid)),
                         files = map (file_item stamp)
                                   (page_of (nat flpage) (nat flsize) (child_files repo fid)),
                         total_folders = int (length (child_folders repo fid)),
                         total_files = int (length (child_files repo fid)),
                         folder_page = fpage, folder_page_size = fsize,
                         file_page = flpage, file_page_size = flsize\<rparr>))"

text \<open>Modelled from the spec: JSON values, for the bodies of responses (the backend's
  serialiser is missing).\<close>

datatype json = JNumber int | JString jsstring | JArray "json list" | JObject "(string \<times> json) list"

text \<open>Modelled from the spec: the JSON object of a folder summary (the backend's
  serialiser is missing).\<close>

definition FolderSummary_json :: "FolderSummary \<Rightarrow> json" where
  "FolderSummary_json s =
     JObject [(''id'', JNumber (fs_id s)), (''name'', JString (fs_name s)),
              (''created_at'', JString (fs_created_at s))]"

text \<open>Modelled from the spec: the JSON object of a file entry (the backend's serialiser
  is missing).\<close>

definition FileItem_json :: "FileItem \<Rightarrow> json" where
  "FileItem_json x =
     JObject [(''id'', JNumber (fi_id x)), (''name'', JString (fi_name x)),
              (''mime_type'', JString (fi_mime_type x)),
              (''size_bytes'', JNumber (int (fi_size_bytes x))),
              (''created_at'', JString (fi_created_at x))]"

text \<open>Modelled from the spec: the JSON object of a listing response, of the "bit-exact
  shape {id, name, breadcrumbs[], folders[], files[], total_folders, total_files,
  folder_page, folder_page_size, file_page, file_page_size}" (the backend's serialiser is
  missing).\<close>

definition FolderContents_json :: "FolderContents \<Rightarrow> (string \<times> json) list" where
  "FolderContents_json c =
     [(''id'', JNumber (fc_id c)), (''name'', JString (fc_name c)),
      (''breadcrumbs'', JArray (map FolderSummary_json (breadcrumbs c))),
      (''folders'', JArray (map FolderSummary_json (folders c))),
      (''files'', JArray (map FileItem_json (files c))),
      (''total_folders'', JNumber (total_folders c)),
      (''total_files'', JNumber (total_files c)),
      (''folder_page'', JNumber (folder_page c)),
      (''folder_page_size'', JNumber (folder_page_size c)),
      (''file_page'', JNumber (file_page c)),
      (''file_page_size'', JNumber (file_page_size c))]"

subsection \<open>The scenario of the specification\<close>

text \<open>Modelled from the spec: the scenario of section 8, root R (id 1), folder A (id 2)
  under R, folder B (id 3) under A, and the file doc.pdf (id 10, 10 bytes) in B.\<close>

definition folder_R :: Folder where
  "folder_R = \<lparr>folder_id = 1, folder_name = js ''R'', folder_parent = None, folder_owner = 1,
                folder_created_at = 100\<rparr>"

definition folder_A :: Folder where
  "folder_A = \<lparr>folder_id = 2, folder_name = js ''A'', folder_parent = Some 1, folder_owner = 1,
                folder_created_at = 101\<rparr>"

definition folder_B :: Folder where
  "folder_B = \<lparr>folder_id = 3, folder_name = js ''B'', folder_parent = Some 2, folder_owner = 1,
                folder_created_at = 102\<rparr>"

definition doc_pdf :: File where
  "doc_pdf = \<lparr>file_id = 10, file_name = js ''doc.pdf'', file_mime_type = js ''application/pdf'',
               file_size_bytes = 10, file_folder = 3, file_content = 7, file_created_at = 103\<rparr>"

definition scenario :: repository where
  "scenario = \<lparr>repo_folders = [folder_R, folder_A, folder_B], repo_files = [doc_pdf]\<rparr>"

section \<open>Helper facts about trimming\<close>

lemma dropWhile_nonempty_hd: "dropWhile P xs \<noteq> [] \<Longrightarrow> \<not> P (hd (dropWhile P xs))"
  by (simp add: hd_dropWhile)

lemma dropWhile_hd_id: "xs \<noteq> [] \<Longrightarrow> \<not> P (hd xs) \<Longrightarrow> dropWhile P xs = xs"
  by (cases xs) auto

lemma trim_empty_iff: "trim s = [] \<longleftrightarrow> blank s"
proof -
  let ?d = "dropWhile is_whitespace s"
  have inner: "dropWhile is_whitespace (rev ?d) = [] \<longleftrightarrow> ?d = []"
  proof
    assume a: "dropWhile is_whitespace (rev ?d) = []"
    show "?d = []"
    proof (rule ccontr)
      assume n: "?d \<noteq> []"
      then have "\<not> is_whitespace (hd ?d)"
        by (rule dropWhile_nonempty_hd)
      moreover have "hd ?d \<in> set (rev ?d)"
        using n by simp
      moreover from a have "\<forall>x\<in>set (rev ?d). is_whitespace x"
        by (simp only: dropWhile_eq_Nil_conv)
      ultimately show False
        by blast
    qed
  next
    assume "?d = []"
    then show "dropWhile is_whitespace (rev ?d) = []"
      by (simp only: rev.simps dropWhile.simps)
  qed
  have "trim s = [] \<longleftrightarrow> dropWhile is_whitespace (rev ?d) = []"
    by (simp add: trim_def)
  also have "\<dots> \<longleftrightarrow> ?d = []"
    by (rule inner)
  also have "\<dots> \<longleftrightarrow> blank s"
    by (simp add: blank_def dropWhile_eq_Nil_conv list_all_iff)
  finally show ?thesis .
qed

lemma trim_is_prefix_of_dropWhile:
  "\<exists>zs. dropWhile is_whitespace s = trim s @ zs"
proof -
  let ?d = "dropWhile is_whitespace s"
  have "trim s @ rev (takeWhile is_whitespace (rev ?d))
        = rev (takeWhile is_whitespace (rev ?d) @ dropWhile is_whitespace (rev ?d))"
    by (simp only: trim_def rev_append)
  also have "\<dots> = rev (rev ?d)"
    by (simp only: takeWhile_dropWhile_id)
  also have "\<dots> = ?d"
    by (simp only: rev_rev_ident)
  finally have "?d = trim s @ rev (takeWhile is_whitespace (rev ?d))"
    by (rule sym)
  then show ?thesis ..
qed

lemma trim_hd_not_whitespace:
  assumes "trim s \<noteq> []"
  shows "\<not> is_whitespace (hd (trim s))"
proof -
  obtain zs where d: "dropWhile is_whitespace s = trim s @ zs"
    using trim_is_prefix_of_dropWhile by blast
  with assms have ne: "dropWhile is_whitespace s \<noteq> []" by auto
  have "hd (dropWhile is_whitespace s) = hd (trim s)"
    using d assms by (metis hd_append2)
  with dropWhile_nonempty_hd [OF ne] show ?thesis by simp
qed

lemma trim_last_not_whitespace:
  assumes "trim s \<noteq> []"
  shows "\<not> is_whitespace (last (trim s))"
proof -
  let ?r = "dropWhile is_whitespace (rev (dropWhile is_whitespace s))"
  from assms have ne: "?r \<noteq> []" by (simp add: trim_def)
  have "last (trim s) = hd ?r"
    using ne by (simp add: trim_def last_rev)
  with dropWhile_nonempty_hd [OF ne] show ?thesis by simp
qed

lemma trim_idem: "trim (trim s) = trim s"
proof (cases "trim s = []")
  case True
  have "trim [] = []" by (simp add: trim_def)
  with True show ?thesis by simp
next
  case False
  have h: "\<not> is_whitespace (hd (trim s))" by (rule trim_hd_not_whitespace [OF False])
  have l: "\<not> is_whitespace (last (trim s))" by (rule trim_last_not_whitespace [OF False])
  have 1: "dropWhile is_whitespace (trim s) = trim s"
    using False h by (rule dropWhile_hd_id)
  have ne: "rev (trim s) \<noteq> []"
    using False by simp
  have "hd (rev (trim s)) = last (trim s)"
    using False by (simp add: hd_rev)
  with l have "\<not> is_whitespace (hd (rev (trim s)))"
    by simp
  with ne have 2: "dropWhile is_whitespace (rev (trim s)) = rev (trim s)"
    by (rule dropWhile_hd_id)
  show ?thesis
    unfolding trim_def [of "trim s"] 1 2 by simp
qed

lemma trim_not_blank: "trim s \<noteq> [] \<Longrightarrow> \<not> blank (trim s)"
  using trim_idem [of s] trim_empty_iff [of "trim s"] by simp

section \<open>The dialogs and the search bar\<close>

lemma confirmed_CreateFolderDialog:
  "confirmed (CreateFolderDialog_handleSubmit name) = (if blank name then [] else [trim name])"
  by (simp add: CreateFolderDialog_handleSubmit_def trim_empty_iff)

lemma confirmed_RenameDialog:
  "confirmed (RenameDialog_handleSubmit currentName name)
   = (if blank name \<or> name = currentName then [] else [trim name])"
  by (simp add: RenameDialog_handleSubmit_def trim_empty_iff)

text \<open>
  C6. The create-folder dialog passes nothing to its confirm callback when the typed name
  is empty or whitespace-only; otherwise it passes exactly one name, the trimmed input,
  and that name is itself neither empty nor whitespace-only. The confirm button is
  disabled exactly for the blank names.
\<close>

theorem CreateFolderDialog_rejects_blank_names:
  "(blank name \<longrightarrow> confirmed (CreateFolderDialog_handleSubmit name) = [])
   \<and> (\<not> blank name \<longrightarrow> confirmed (CreateFolderDialog_handleSubmit name) = [trim name])
   \<and> (\<forall>n \<in> set (confirmed (CreateFolderDialog_handleSubmit name)).
         n = trim name \<and> n \<noteq> [] \<and> \<not> blank n)
   \<and> (CreateFolderDialog_submit_disabled name \<longleftrightarrow> blank name)"
proof -
  have "\<not> blank name \<Longrightarrow> trim name \<noteq> [] \<and> \<not> blank (trim name)"
    using trim_empty_iff [of name] trim_not_blank [of name] by simp
  then show ?thesis
    by (auto simp: confirmed_CreateFolderDialog CreateFolderDialog_submit_disabled_def
        trim_empty_iff)
qed

theorem CreateFolderDialog_rejects_blank_names_witness:
  "blank [0x20, 0x09, 0x3000]
   \<and> confirmed (CreateFolderDialog_handleSubmit [0x20, 0x09, 0x3000]) = []
   \<and> \<not> blank [0x20, 0x51, 0x31, 0x20]
   \<and> confirmed (CreateFolderDialog_handleSubmit [0x20, 0x51, 0x31, 0x20]) = [[0x51, 0x31]]"
proof -
  have b: "blank [0x20, 0x09, 0x3000]"
    by (simp add: blank_def is_whitespace_def)
  have nb: "\<not> blank [0x20, 0x51, 0x31, 0x20]"
    by (simp add: blank_def is_whitespace_def)
  have t: "trim [0x20, 0x51, 0x31, 0x20] = [0x51, 0x31]"
    by (simp add: trim_def is_whitespace_def)
  from b CreateFolderDialog_rejects_blank_names [of "[0x20, 0x09, 0x3000]"]
  have 1: "confirmed (CreateFolderDialog_handleSubmit [0x20, 0x09, 0x3000]) = []"
    by blast
  from nb CreateFolderDialog_rejects_blank_names [of "[0x20, 0x51, 0x31, 0x20]"]
  have "confirmed (CreateFolderDialog_handleSubmit [0x20, 0x51, 0x31, 0x20])
        = [trim [0x20, 0x51, 0x31, 0x20]]"
    by blast
  with t have 2: "confirmed (CreateFolderDialog_handleSubmit [0x20, 0x51, 0x31, 0x20]) = [[0x51, 0x31]]"
    by simp
  from b 1 nb 2 show ?thesis by blast
qed

text \<open>
  C7. The rename dialog passes nothing to its confirm callback when the typed name is
  empty or whitespace-only, and nothing when the typed name is identical to the current
  name; a name it does pass is the trimmed input and is not blank. The submit button is
  disabled in exactly those two cases.
\<close>

theorem RenameDialog_rejects_blank_and_unchanged_names:
  "(blank name \<longrightarrow> confirmed (RenameDialog_handleSubmit currentName name) = [])
   \<and> (name = currentName \<longrightarrow> confirmed (RenameDialog_handleSubmit currentName name) = [])
   \<and> (\<forall>n \<in> set (confirmed (RenameDialog_handleSubmit currentName name)).
         n = trim name \<and> n \<noteq> [] \<and> \<not> blank n \<and> name \<noteq> currentName)
   \<and> (RenameDialog_submit_disabled currentName name \<longleftrightarrow> blank name \<or> name = currentName)"
proof -
  have "\<not> blank name \<Longrightarrow> trim name \<noteq> [] \<and> \<not> blank (trim name)"
    using trim_empty_iff [of name] trim_not_blank [of name] by simp
  then show ?thesis
    by (auto simp: confirmed_RenameDialog RenameDialog_submit_disabled_def trim_empty_iff)
qed

theorem RenameDialog_rejects_blank_and_unchanged_names_witness:
  "blank [0x20, 0x20]
   \<and> confirmed (RenameDialog_handleSubmit [0x51, 0x31] [0x20, 0x20]) = []
   \<and> confirmed (RenameDialog_handleSubmit [0x51, 0x31] [0x51, 0x31]) = []
   \<and> confirmed (RenameDialog_handleSubmit [0x51, 0x31] [0x51, 0x32, 0x20]) = [[0x51, 0x32]]"
proof -
  have b: "blank [0x20, 0x20]"
    by (simp add: blank_def is_whitespace_def)
  from b RenameDialog_rejects_blank_and_unchanged_names [of "[0x20, 0x20]" "[0x51, 0x31]"]
  have 1: "confirmed (RenameDialog_handleSubmit [0x51, 0x31] [0x20, 0x20]) = []"
    by blast
  from RenameDialog_rejects_blank_and_unchanged_names [of "[0x51, 0x31]" "[0x51, 0x31]"]
  have 2: "confirmed (RenameDialog_handleSubmit [0x51, 0x31] [0x51, 0x31]) = []"
    by blast
  have 3: "confirmed (RenameDialog_handleSubmit [0x51, 0x31] [0x51, 0x32, 0x20]) = [[0x51, 0x32]]"
    by (simp add: RenameDialog_handleSubmit_def trim_def is_whitespace_def)
  from b 1 2 3 show ?thesis by blast
qed

text \<open>
  C5. For a query that is empty or whitespace-only, the search handler records the query,
  clears the results (so no result panel is shown) and issues no request, whatever the
  server would have answered and whatever the state was before.
\<close>

theorem handleSearch_blank_query:
  assumes "blank searchQuery"
  shows "handleSearch encodeURIComponent fetch searchQuery st
           = (st\<lparr>query := searchQuery, results := None\<rparr>, [])
         \<and> \<not> results_shown (fst (handleSearch encodeURIComponent fetch searchQuery st))
         \<and> snd (handleSearch encodeURIComponent fetch searchQuery st) = []"
proof -
  from assms have t: "trim searchQuery = []"
    by (simp add: trim_empty_iff)
  have 1: "handleSearch encodeURIComponent fetch searchQuery st
           = (st\<lparr>query := searchQuery, results := None\<rparr>, [])"
    by (simp add: handleSearch_def t)
  have 2: "\<not> results_shown (fst (handleSearch encodeURIComponent fetch searchQuery st))"
    by (simp add: 1 results_shown_def)
  have 3: "snd (handleSearch encodeURIComponent fetch searchQuery st) = []"
    by (simp add: 1)
  from 1 2 3 show ?thesis by blast
qed

theorem handleSearch_blank_query_witness:
  "blank [0x20, 0x0A]
   \<and> handleSearch (\<lambda>q. Some ''x'') (\<lambda>r. Response True 200 (Inr \<lparr>sr_folders = [], sr_files = []\<rparr>))
        [0x20, 0x0A]
        \<lparr>query = [0x61], results = Some \<lparr>sr_folders = [], sr_files = []\<rparr>, isSearching = False\<rparr>
      = (\<lparr>query = [0x20, 0x0A], results = None, isSearching = False\<rparr>, [])"
proof -
  have b: "blank [0x20, 0x0A]"
    by (simp add: blank_def is_whitespace_def)
  from handleSearch_blank_query [OF b] b show ?thesis
    by simp
qed

text \<open>A query with visible text does reach the server, with credentials included.\<close>

lemma handleSearch_issues_request:
  "\<not> blank q \<Longrightarrow> enc q = Some e \<Longrightarrow>
   snd (handleSearch enc fetch q st) = [search_request e]"
  by (simp add: handleSearch_def trim_empty_iff Let_def split: outcome.splits sum.splits)


section \<open>formatBytes\<close>

lemma unit_index_bounds:
  assumes "1 \<le> sz"
  shows "0 \<le> unit_index sz \<and> unit_index sz < int (length units)"
proof -
  from assms have "0 \<le> ln sz" by simp
  moreover have "0 < ln (1024::real)" by simp
  ultimately have "0 \<le> ln sz / ln 1024" by simp
  then have "0 \<le> \<lfloor>ln sz / ln 1024\<rfloor>" by simp
  then show ?thesis
    by (simp add: unit_index_def units_def)
qed

text \<open>Below 1 the logarithm is negative, and nothing clamps the index from below.\<close>

lemma unit_index_negative:
  assumes "0 < sz" "sz < 1"
  shows "unit_index sz < 0 \<and> js_index units (unit_index sz) = None"
proof -
  from assms have "ln sz < 0" by simp
  moreover have "0 < ln (1024::real)" by simp
  ultimately have "ln sz / ln 1024 < 0"
    by (simp add: divide_neg_pos)
  then have "\<lfloor>ln sz / ln 1024\<rfloor> < 0"
    by (simp add: floor_less_iff)
  then have "unit_index sz < 0"
    unfolding unit_index_def by (rule min.strict_coboundedI1)
  then show ?thesis
    by (simp add: js_index_def)
qed

text \<open>The index of a whole size, computed with integers: one less than the number of
  base-1024 digits, capped at 4.\<close>

lemma unit_index_floorlog:
  assumes "0 < n"
  shows "unit_index (real n) = min (int (floorlog 1024 n) - 1) 4"
proof -
  from assms have "1 \<le> real n" by simp
  then have "0 \<le> log 1024 (real n)" by simp
  then have nn: "0 \<le> \<lfloor>log 1024 (real n)\<rfloor>" by simp
  have "int (floorlog 1024 n) = \<lfloor>log 1024 (real n)\<rfloor> + 1"
    using assms nn by (simp add: floorlog_def)
  moreover have "ln (real n) / ln 1024 = log 1024 (real n)"
    by (simp add: log_def)
  ultimately show ?thesis
    by (simp add: unit_index_def units_def)
qed

lemma unit_index_half: "unit_index (1 / 2) = - 1"
proof -
  have e: "(2::real) ^ 10 = 1024" by simp
  have "ln ((2::real) ^ 10) = real 10 * ln 2"
    by (rule ln_realpow)
  then have big: "ln (1024::real) = 10 * ln 2"
    unfolding e by simp
  have half: "ln (1 / 2 :: real) = - ln 2"
    by (simp add: ln_div)
  have "ln (2::real) \<noteq> 0" by simp
  then have "ln (1 / 2 :: real) / ln 1024 = - (1 / 10)"
    unfolding big half by simp
  moreover have "\<lfloor>- (1 / 10) :: real\<rfloor> = - 1"
    by (rule floor_unique) simp_all
  ultimately have "\<lfloor>ln (1 / 2 :: real) / ln 1024\<rfloor> = - 1" by simp
  then show ?thesis
    by (simp add: unit_index_def units_def)
qed

text \<open>
  C10, as stated, fails: half a byte is a positive size, its unit index is \<open>-1\<close>, the
  read of the unit lies outside the array and the result ends in \<open>undefined\<close>.
\<close>

theorem formatBytes_half_reads_outside:
  "(0::real) < 1 / 2
   \<and> unit_index (1 / 2) = - 1
   \<and> js_index units (unit_index (1 / 2)) = None
   \<and> formatBytes (\<lambda>v d. if v = 512 \<and> d = 0 then ''512'' else ''?'') (1 / 2) = ''512 undefined''"
proof -
  have r: "js_index units (- 1) = None"
    by (simp add: js_index_def)
  have v: "(1 / 2 :: real) / (1024 powi (- 1)) = 512"
    by (simp add: power_int_def)
  have "formatBytes (\<lambda>v d. if v = 512 \<and> d = 0 then ''512'' else ''?'') (1 / 2) = ''512 undefined''"
    by (simp add: formatBytes_def Let_def unit_index_half r v)
  with r show ?thesis
    by (simp add: unit_index_half)
qed

text \<open>
  C10, amended. formatBytes returns "0 B" for size zero, and for every size of at least
  one byte, however large, the unit index lies within the units array (B through TB):
  the read of the unit is defined and yields one of the five units.
\<close>

theorem formatBytes_unit_in_bounds:
  "formatBytes toFixed 0 = ''0 B''
   \<and> (1 \<le> sz \<longrightarrow>
        0 \<le> unit_index sz \<and> unit_index sz < int (length units)
        \<and> js_index units (unit_index sz) = Some (units ! nat (unit_index sz))
        \<and> units ! nat (unit_index sz) \<in> set units
        \<and> formatBytes toFixed sz
            = toFixed (sz / (1024 powi unit_index sz))
                (if sz / (1024 powi unit_index sz) \<ge> 10 \<or> unit_index sz = 0 then 0 else 1)
              @ '' '' @ units ! nat (unit_index sz))"
proof -
  have zero: "formatBytes toFixed 0 = ''0 B''"
    by (simp add: formatBytes_def)
  have pos: "0 \<le> unit_index sz \<and> unit_index sz < int (length units)
        \<and> js_index units (unit_index sz) = Some (units ! nat (unit_index sz))
        \<and> units ! nat (unit_index sz) \<in> set units
        \<and> formatBytes toFixed sz
            = toFixed (sz / (1024 powi unit_index sz))
                (if sz / (1024 powi unit_index sz) \<ge> 10 \<or> unit_index sz = 0 then 0 else 1)
              @ '' '' @ units ! nat (unit_index sz)" if "1 \<le> sz"
  proof -
    from unit_index_bounds [OF that]
    have b: "0 \<le> unit_index sz" "unit_index sz < int (length units)" by simp_all
    then have r: "js_index units (unit_index sz) = Some (units ! nat (unit_index sz))"
      by (simp add: js_index_def)
    from b have "nat (unit_index sz) < length units" by simp
    then have m: "units ! nat (unit_index sz) \<in> set units" by (rule nth_mem)
    from that have "sz \<noteq> 0" "\<not> sz < 0" by simp_all
    then have f: "formatBytes toFixed sz
            = toFixed (sz / (1024 powi unit_index sz))
                (if sz / (1024 powi unit_index sz) \<ge> 10 \<or> unit_index sz = 0 then 0 else 1)
              @ '' '' @ units ! nat (unit_index sz)"
      by (simp add: formatBytes_def Let_def r)
    from b r m f show ?thesis by blast
  qed
  from zero pos show ?thesis by blast
qed

theorem formatBytes_unit_in_bounds_witness:
  "formatBytes (\<lambda>v d. ''?'') 0 = ''0 B''
   \<and> (1::real) \<le> 1024 ^ 7
   \<and> unit_index 1 = 0 \<and> unit_index 1536 = 1
   \<and> unit_index (1024 ^ 7) = 4
   \<and> js_index units (unit_index (1024 ^ 7)) = Some ''TB''"
proof -
  have p: "(1::real) \<le> 1024 ^ 7" by simp
  have i1: "unit_index 1 = 0"
    using unit_index_floorlog [of 1] by (simp add: compute_floorlog)
  have i2: "unit_index 1536 = 1"
    using unit_index_floorlog [of 1536] by (simp add: compute_floorlog)
  have i3: "unit_index (1024 ^ 7) = 4"
    using unit_index_floorlog [of "1024 ^ 7"] by (simp add: compute_floorlog)
  from formatBytes_unit_in_bounds [of "\<lambda>v d. ''?''" "1024 ^ 7"] p
  have "formatBytes (\<lambda>v d. ''?'') 0 = ''0 B''"
    and "js_index units (unit_index (1024 ^ 7)) = Some (units ! nat (unit_index (1024 ^ 7)))"
    by blast+
  with i1 i2 i3 p show ?thesis
    by (simp add: units_def)
qed

section \<open>Deleting the folder on screen\<close>


subsection \<open>What a load does\<close>

text \<open>A load without options issues one request, for the pages held in the state.\<close>

lemma requests_loadFolder:
  "requests (loadFolder srv folderId None app)
   = requests app @ [loadFolder_request folderId (folderPage app) (filePage app)]"
  by (simp add: loadFolder_def Let_def log_request_def failed_def
      split: outcome.splits sum.splits)


text \<open>When the server does not, the folder on screen stays and an error is recorded.\<close>

lemma loadFolder_fails:
  assumes "\<And>st data. fetch_contents srv (loadFolder_request folderId (folderPage app) (filePage app))
             \<noteq> Response True st (Inr data)"
  shows "currentFolder (loadFolder srv folderId None app) = currentFolder app
         \<and> error (state (loadFolder srv folderId None app)) \<noteq> None"
  using assms
  by (auto simp: loadFolder_def Let_def log_request_def failed_def
      split: outcome.splits sum.splits)





subsection \<open>The handler\<close>





section \<open>Paging of a listing\<close>

text \<open>
  A load asks for the folder page and the file page separately, each with its own page
  size; cursors that the caller leaves out are taken from the two state variables.
\<close>

lemma loadFolder_request_cursors:
  "requests (loadFolder srv folderId (Some \<lparr>opt_folderPage = Some fp, opt_filePage = Some flp\<rparr>) app)
   = requests app @ [loadFolder_request folderId fp flp]"
  by (simp add: loadFolder_def Let_def log_request_def failed_def
      split: outcome.splits sum.splits)

lemma loadFolder_request_url_example:
  "url (loadFolder_request 7 3 1)
   = ''http://localhost:8000/folders/7/contents?folder_page=3&folder_page_size=50&file_page=1&file_page_size=50''"
  by (simp add: loadFolder_request_def API_BASE_URL_def String_int_def)

text \<open>
  For a listing of the declared shape the pagination block is never rendered, and in no
  case does it render buttons: the guard reads a member the listing does not have.
\<close>

lemma pagination_hidden: "pagination Undefined cf = Hidden"
  by (simp add: pagination_def split: option.splits)

lemma pagination_never_buttons: "pagination page_size cf \<noteq> Buttons bs"
  by (simp add: pagination_def split: option.splits)

text \<open>
  C1 (the paging controls). A folder with 120 subfolders and 75 files, listed 50 per
  page: the page shows no paging controls, so neither the folder cursor nor the file
  cursor can be advanced from the page.
\<close>

theorem pagination_hidden_for_large_folder:
  "total_folders largeListing = 120 \<and> total_files largeListing = 75
   \<and> folder_page_size largeListing = 50 \<and> file_page_size largeListing = 50
   \<and> pagination Undefined (Some largeListing) = Hidden"
  by (simp add: largeListing_def rootListing_def pagination_def)

section \<open>Credentials\<close>

text \<open>
  C8 (the requests that change the tree). Of the nine kinds of request, the three reads
  (listing, root, search) are sent with credentials included; create, rename, delete and
  upload are sent without a credentials member.
\<close>

theorem mutating_requests_omit_credentials:
  "map sends_credentials (engine_requests 1 22 (js ''Docs'') ''Docs'')
   = [True, True, True, False, False, False, False, False, False]
   \<and> credentials (createFolder_request (js ''Docs'') 1) = None"
  by (simp add: engine_requests_def sends_credentials_def loadFolder_request_def
      loadRoot_request_def search_request_def createFolder_request_def
      renameFolder_request_def deleteFolder_request_def uploadFile_request_def
      renameFile_request_def deleteFile_request_def)

lemma handleCreateFolder_request:
  "currentFolder app = Some cf \<Longrightarrow>
   requests (handleCreateFolder srv name app) ! length (requests app)
   = createFolder_request name (fc_id cf)"
  by (simp add: handleCreateFolder_def Let_def log_request_def alert_def requests_loadFolder
      nth_append split: outcome.splits)


section \<open>Breadcrumbs\<close>

declare walk_up.simps [simp del]
declare collect.simps [simp del]

lemma at_depth_functional:
  "at_depth repo fid n r \<Longrightarrow> at_depth repo fid m r' \<Longrightarrow> n = m \<and> r = r'"
proof (induction arbitrary: m r' rule: at_depth.induct)
  case (root fid f)
  from root.prems root.hyps show ?case
    by (cases rule: at_depth.cases) auto
next
  case (child fid f p n r)
  from child.prems child.hyps(1,2) obtain k where "m = Suc k" "at_depth repo p k r'"
    by (cases rule: at_depth.cases) auto
  with child.IH [of k r'] show ?case by simp
qed

text \<open>
  The walk succeeds from a folder of depth \<open>n\<close> whenever every id already passed lies
  deeper: it returns the \<open>n + 1\<close> folders from the folder up to its root.
\<close>

lemma walk_up_at_depth:
  "at_depth repo fid n r \<Longrightarrow>
   (\<And>v m r'. v \<in> set visited \<Longrightarrow> at_depth repo v m r' \<Longrightarrow> n < m) \<Longrightarrow>
   \<exists>fs. walk_up repo visited fid = Inr fs \<and> length fs = Suc n \<and> last fs = r
        \<and> find_folder repo fid = Some (hd fs) \<and> folder_parent r = None"
proof (induction arbitrary: visited rule: at_depth.induct)
  case (root fid f)
  have "fid \<notin> set visited"
  proof
    assume "fid \<in> set visited"
    from root.prems [OF this at_depth.root [OF root.hyps]] show False by simp
  qed
  with root.hyps have "walk_up repo visited fid = Inr [f]"
    by (simp add: walk_up.simps [of repo visited fid])
  with root.hyps show ?case by simp
next
  case (child fid f p n r)
  have here: "at_depth repo fid (Suc n) r"
    by (rule at_depth.child [OF child.hyps])
  have fresh: "fid \<notin> set visited"
  proof
    assume "fid \<in> set visited"
    from child.prems [OF this here] show False by simp
  qed
  have deeper: "n < m" if "v \<in> set (fid # visited)" "at_depth repo v m r'" for v m r'
  proof (cases "v = fid")
    case True
    with that(2) here have "m = Suc n"
      using at_depth_functional by blast
    then show ?thesis by simp
  next
    case False
    with that(1) have "v \<in> set visited" by simp
    from child.prems [OF this that(2)] show ?thesis by simp
  qed
  have "\<exists>fs. walk_up repo (fid # visited) p = Inr fs \<and> length fs = Suc n \<and> last fs = r
          \<and> find_folder repo p = Some (hd fs) \<and> folder_parent r = None"
  proof (rule child.IH)
    fix v m r'
    assume "v \<in> set (fid # visited)" "at_depth repo v m r'"
    then show "n < m" by (rule deeper)
  qed
  then obtain fs where fs: "walk_up repo (fid # visited) p = Inr fs" "length fs = Suc n"
    "last fs = r" "folder_parent r = None"
    by blast
  from fs(2) have ne: "fs \<noteq> []" by auto
  from child.hyps(1,2) fresh fs(1) have "walk_up repo visited fid = Inr (f # fs)"
    by (simp add: walk_up.simps [of repo visited fid])
  with fs ne child.hyps(1) show ?case by simp
qed

lemma find_folder_id: "find_folder repo fid = Some f \<Longrightarrow> folder_id f = fid"
  by (auto simp: find_folder_def find_Some_iff)

lemma breadcrumbs_of_at_depth:
  assumes "at_depth repo fid n r"
  shows "\<exists>crumbs. breadcrumbs_of repo fid = Inr crumbs \<and> length crumbs = n + 1
          \<and> hd crumbs = r \<and> folder_parent r = None
          \<and> find_folder repo fid = Some (last crumbs) \<and> folder_id (last crumbs) = fid"
proof -
  from walk_up_at_depth [OF assms, of "[]"]
  obtain fs where fs: "walk_up repo [] fid = Inr fs" "length fs = Suc n" "last fs = r"
    "find_folder repo fid = Some (hd fs)" "folder_parent r = None"
    by auto
  from fs(2) have ne: "fs \<noteq> []" by auto
  have "breadcrumbs_of repo fid = Inr (rev fs)"
    by (simp add: breadcrumbs_of_def fs(1))
  moreover have "hd (rev fs) = r" "last (rev fs) = hd fs"
    using ne fs(3) by (simp_all add: hd_rev last_rev)
  moreover have "folder_id (hd fs) = fid"
    using fs(4) by (rule find_folder_id)
  ultimately show ?thesis
    using fs(2,4,5) by simp
qed

subsection \<open>The breadcrumb bar of the client\<close>

lemma breadcrumb_nav_loads:
  "map cb_loads (breadcrumb_nav (Some c)) = map fs_id (breadcrumbs c)"
  by (simp add: breadcrumb_nav_def breadcrumbItems_def Let_def list_eq_iff_nth_eq
      nth_enumerate_eq)

lemma breadcrumb_nav_labels:
  "map cb_label (breadcrumb_nav (Some c)) = map fs_name (breadcrumbs c)"
  by (simp add: breadcrumb_nav_def breadcrumbItems_def Let_def list_eq_iff_nth_eq
      nth_enumerate_eq)

lemma breadcrumb_nav_disabled:
  "map cb_disabled (breadcrumb_nav (Some c))
   = (if breadcrumbs c = [] then [] else replicate (length (breadcrumbs c) - 1) False @ [True])"
proof (cases "breadcrumbs c = []")
  case True
  then show ?thesis
    by (simp add: breadcrumb_nav_def breadcrumbItems_def)
next
  case False
  then have len: "0 < length (breadcrumbs c)" by simp
  have "map cb_disabled (breadcrumb_nav (Some c))
        = replicate (length (breadcrumbs c) - 1) False @ [True]"
  proof (rule nth_equalityI)
    show "length (map cb_disabled (breadcrumb_nav (Some c)))
          = length (replicate (length (breadcrumbs c) - 1) False @ [True])"
      using len by (simp add: breadcrumb_nav_def breadcrumbItems_def Let_def)
  next
    fix i
    assume "i < length (map cb_disabled (breadcrumb_nav (Some c)))"
    then have i: "i < length (breadcrumbs c)"
      by (simp add: breadcrumb_nav_def breadcrumbItems_def Let_def)
    have key: "(int i = int (length (breadcrumbs c)) - 1) = (i = length (breadcrumbs c) - 1)"
      using len by arith
    from i have "cb_disabled (breadcrumb_nav (Some c) ! i) = (i = length (breadcrumbs c) - 1)"
      by (simp add: breadcrumb_nav_def breadcrumbItems_def Let_def nth_enumerate_eq key)
    moreover have "(replicate (length (breadcrumbs c) - 1) False @ [True]) ! i
                   = (i = length (breadcrumbs c) - 1)"
      using i by (auto simp: nth_append)
    ultimately show "map cb_disabled (breadcrumb_nav (Some c)) ! i
                     = (replicate (length (breadcrumbs c) - 1) False @ [True]) ! i"
      using i by (simp add: breadcrumb_nav_def breadcrumbItems_def Let_def)
  qed
  with False show ?thesis by simp
qed

text \<open>
  C4. For a folder F at depth \<open>n\<close> with root \<open>r\<close>, the breadcrumbs exist, have
  \<open>n + 1\<close> entries, start with the root (a folder without parent) and end with F itself;
  and for a listing that carries these breadcrumbs the client shows one button per entry
  in the same order, each loading its entry's folder, of which only the last one is
  disabled.
\<close>

theorem breadcrumbs_root_first:
  assumes "at_depth repo fid n r"
  shows "\<exists>crumbs. breadcrumbs_of repo fid = Inr crumbs
          \<and> length crumbs = n + 1
          \<and> hd crumbs = r \<and> folder_parent r = None
          \<and> find_folder repo fid = Some (last crumbs) \<and> folder_id (last crumbs) = fid
          \<and> (\<forall>c. breadcrumbs c = map (folder_summary stamp) crumbs \<longrightarrow>
                 map cb_loads (breadcrumb_nav (Some c)) = map folder_id crumbs
                 \<and> map cb_label (breadcrumb_nav (Some c)) = map folder_name crumbs
                 \<and> map cb_disabled (breadcrumb_nav (Some c)) = replicate n False @ [True])"
proof -
  from breadcrumbs_of_at_depth [OF assms]
  obtain crumbs where c: "breadcrumbs_of repo fid = Inr crumbs" "length crumbs = n + 1"
    "hd crumbs = r" "folder_parent r = None" "find_folder repo fid = Some (last crumbs)"
    "folder_id (last crumbs) = fid"
    by blast
  have nav: "map cb_loads (breadcrumb_nav (Some c)) = map folder_id crumbs
             \<and> map cb_label (breadcrumb_nav (Some c)) = map folder_name crumbs
             \<and> map cb_disabled (breadcrumb_nav (Some c)) = replicate n False @ [True]"
    if eq: "breadcrumbs c = map (folder_summary stamp) crumbs" for c
  proof -
    have l: "length (breadcrumbs c) = n + 1"
      by (simp add: eq c(2))
    then have ne: "breadcrumbs c \<noteq> []" by auto
    have 1: "map cb_loads (breadcrumb_nav (Some c)) = map folder_id crumbs"
      by (simp add: breadcrumb_nav_loads eq folder_summary_def)
    have 2: "map cb_label (breadcrumb_nav (Some c)) = map folder_name crumbs"
      by (simp add: breadcrumb_nav_labels eq folder_summary_def)
    have 3: "map cb_disabled (breadcrumb_nav (Some c)) = replicate n False @ [True]"
      using ne l by (simp add: breadcrumb_nav_disabled)
    from 1 2 3 show ?thesis by blast
  qed
  from c nav show ?thesis by blast
qed


lemma find_folder_scenario:
  "find_folder scenario 1 = Some folder_R"
  "find_folder scenario 2 = Some folder_A"
  "find_folder scenario 3 = Some folder_B"
  by (simp_all add: find_folder_def scenario_def folder_R_def folder_A_def folder_B_def)

lemma folder_parent_scenario:
  "folder_parent folder_R = None"
  "folder_parent folder_A = Some 1"
  "folder_parent folder_B = Some 2"
  by (simp_all add: folder_R_def folder_A_def folder_B_def)

lemma at_depth_scenario: "at_depth scenario 3 2 folder_R"
proof -
  have "at_depth scenario 1 0 folder_R"
    by (rule at_depth.root [OF find_folder_scenario(1) folder_parent_scenario(1)])
  then have "at_depth scenario 2 (Suc 0) folder_R"
    by (rule at_depth.child [OF find_folder_scenario(2) folder_parent_scenario(2)])
  then have "at_depth scenario 3 (Suc (Suc 0)) folder_R"
    by (rule at_depth.child [OF find_folder_scenario(3) folder_parent_scenario(3)])
  then show ?thesis by (simp add: numeral_2_eq_2)
qed

lemma breadcrumbs_of_scenario: "breadcrumbs_of scenario 3 = Inr [folder_R, folder_A, folder_B]"
proof -
  have 1: "walk_up scenario [2, 3] 1 = Inr [folder_R]"
    by (simp add: walk_up.simps [of scenario "[2, 3]" 1] find_folder_scenario
        folder_parent_scenario)
  have 2: "walk_up scenario [3] 2 = Inr [folder_A, folder_R]"
    by (simp add: walk_up.simps [of scenario "[3]" 2] find_folder_scenario
        folder_parent_scenario 1)
  have 3: "walk_up scenario [] 3 = Inr [folder_B, folder_A, folder_R]"
    by (simp add: walk_up.simps [of scenario "[]" 3] find_folder_scenario
        folder_parent_scenario 2)
  show ?thesis
    by (simp add: breadcrumbs_of_def 3)
qed

theorem breadcrumbs_root_first_witness:
  "at_depth scenario 3 2 folder_R
   \<and> (\<exists>crumbs. breadcrumbs_of scenario 3 = Inr crumbs \<and> length crumbs = 3
         \<and> crumbs = [folder_R, folder_A, folder_B]
         \<and> hd crumbs = folder_R
         \<and> folder_id (last crumbs) = 3
         \<and> map cb_disabled
              (breadcrumb_nav (Some (docsListing\<lparr>breadcrumbs := map (folder_summary (\<lambda>t. [])) crumbs\<rparr>)))
             = [False, False, True])"
proof -
  from breadcrumbs_root_first [OF at_depth_scenario, where stamp = "\<lambda>t. []"]
  obtain crumbs where c: "breadcrumbs_of scenario 3 = Inr crumbs" "length crumbs = 2 + 1"
    "hd crumbs = folder_R" "folder_id (last crumbs) = 3"
    and nav: "\<And>c. breadcrumbs c = map (folder_summary (\<lambda>t. [])) crumbs \<Longrightarrow>
              map cb_disabled (breadcrumb_nav (Some c)) = replicate 2 False @ [True]"
    by blast
  from c(1) have ids: "crumbs = [folder_R, folder_A, folder_B]"
    by (simp add: breadcrumbs_of_scenario)
  have "map cb_disabled
          (breadcrumb_nav (Some (docsListing\<lparr>breadcrumbs := map (folder_summary (\<lambda>t. [])) crumbs\<rparr>)))
        = replicate 2 False @ [True]"
    by (rule nav) simp
  then have dis: "map cb_disabled
          (breadcrumb_nav (Some (docsListing\<lparr>breadcrumbs := map (folder_summary (\<lambda>t. [])) crumbs\<rparr>)))
        = [False, False, True]"
    by (simp add: numeral_2_eq_2)
  from c ids dis at_depth_scenario show ?thesis
    by auto
qed


section \<open>Cascade delete\<close>

lemma child_ids_exist: "c \<in> set (child_ids repo s) \<Longrightarrow> find_folder repo c \<noteq> None"
  by (auto simp: child_ids_def find_folder_def find_None_iff)

lemma in_subtree_step_up:
  "in_subtree repo c d \<Longrightarrow> c \<in> set (child_ids repo x) \<Longrightarrow> in_subtree repo x d"
proof (induction rule: in_subtree.induct)
  case top
  then obtain f where "f \<in> set (repo_folders repo)" "folder_parent f = Some x" "folder_id f = c"
    by (auto simp: child_ids_def)
  with in_subtree.top [of repo x] show ?case
    using in_subtree.below by blast
next
  case (below p f)
  then show ?case
    using in_subtree.below by blast
qed

lemma collect_keeps_seen: "set seen \<subseteq> set (collect repo work seen)"
proof (induction repo work seen rule: collect.induct)
  case (1 repo seen)
  then show ?case by (simp add: collect.simps)
next
  case (2 repo x work seen)
  then show ?case
    by (auto simp: collect.simps(2) [of repo x work seen] split: if_splits)
qed

text \<open>Everything collected was seen before or lies in the subtree of a folder still to
  be visited.\<close>

lemma collect_sound:
  "set (collect repo work seen) \<subseteq> set seen \<union> {d. \<exists>w \<in> set work. in_subtree repo w d}"
proof (induction repo work seen rule: collect.induct)
  case (1 repo seen)
  then show ?case by (simp add: collect.simps)
next
  case (2 repo x work seen)
  show ?case
  proof (cases "x \<in> set seen \<or> find_folder repo x = None")
    case True
    then have "collect repo (x # work) seen = collect repo work seen"
      by (simp add: collect.simps)
    with "2.IH"(1) [OF True] show ?thesis
      by auto
  next
    case False
    then have eq: "collect repo (x # work) seen = collect repo (child_ids repo x @ work) (x # seen)"
      by (auto simp: collect.simps)
    have "in_subtree repo x d" if "w \<in> set (child_ids repo x)" "in_subtree repo w d" for w d
      using that(2) that(1) by (rule in_subtree_step_up)
    moreover have "in_subtree repo x x"
      by (rule in_subtree.top)
    ultimately show ?thesis
      using "2.IH"(2) [OF False] unfolding eq by fastforce
  qed
qed

text \<open>If the children of every folder seen so far are seen or still to be visited, then
  the result holds every existing folder of the worklist and is closed under children.\<close>

lemma collect_closed:
  "(\<And>s c. s \<in> set seen \<Longrightarrow> c \<in> set (child_ids repo s) \<Longrightarrow> c \<in> set seen \<union> set work) \<Longrightarrow>
   (\<forall>w \<in> set work. find_folder repo w \<noteq> None \<longrightarrow> w \<in> set (collect repo work seen))
   \<and> (\<forall>s \<in> set (collect repo work seen). \<forall>c \<in> set (child_ids repo s).
         c \<in> set (collect repo work seen))"
proof (induction repo work seen rule: collect.induct)
  case (1 repo seen)
  then show ?case by (auto simp: collect.simps)
next
  case (2 repo x work seen)
  show ?case
  proof (cases "x \<in> set seen \<or> find_folder repo x = None")
    case True
    then have eq: "collect repo (x # work) seen = collect repo work seen"
      by (auto simp: collect.simps)
    have inv: "c \<in> set seen \<union> set work" if "s \<in> set seen" "c \<in> set (child_ids repo s)" for s c
    proof -
      from "2.prems" [OF that] have "c \<in> set seen \<or> c = x \<or> c \<in> set work" by auto
      moreover from that(2) have "find_folder repo c \<noteq> None" by (rule child_ids_exist)
      ultimately show ?thesis using True by auto
    qed
    have ih: "(\<forall>w \<in> set work. find_folder repo w \<noteq> None \<longrightarrow> w \<in> set (collect repo work seen))
       \<and> (\<forall>s \<in> set (collect repo work seen). \<forall>c \<in> set (child_ids repo s).
             c \<in> set (collect repo work seen))"
      by (rule "2.IH"(1) [OF True]) (rule inv)
    have "x \<in> set (collect repo work seen)" if "find_folder repo x \<noteq> None"
      using that True collect_keeps_seen [of seen repo work] by auto
    with ih show ?thesis
      unfolding eq by auto
  next
    case False
    then have eq: "collect repo (x # work) seen = collect repo (child_ids repo x @ work) (x # seen)"
      by (auto simp: collect.simps)
    have inv: "c \<in> set (x # seen) \<union> set (child_ids repo x @ work)"
      if "s \<in> set (x # seen)" "c \<in> set (child_ids repo s)" for s c
    proof (cases "s = x")
      case True
      with that(2) show ?thesis by simp
    next
      case False
      with that(1) have "s \<in> set seen" by simp
      from "2.prems" [OF this that(2)] show ?thesis by auto
    qed
    have ih: "(\<forall>w \<in> set (child_ids repo x @ work). find_folder repo w \<noteq> None \<longrightarrow>
                 w \<in> set (collect repo (child_ids repo x @ work) (x # seen)))
       \<and> (\<forall>s \<in> set (collect repo (child_ids repo x @ work) (x # seen)).
            \<forall>c \<in> set (child_ids repo s).
              c \<in> set (collect repo (child_ids repo x @ work) (x # seen)))"
      by (rule "2.IH"(2) [OF False]) (rule inv)
    have "x \<in> set (collect repo (child_ids repo x @ work) (x # seen))"
      using collect_keeps_seen [of "x # seen" repo "child_ids repo x @ work"] by auto
    with ih show ?thesis
      unfolding eq by auto
  qed
qed

text \<open>The traversal collects exactly the subtree.\<close>

lemma collect_subtree:
  assumes "find_folder repo t \<noteq> None"
  shows "set (collect repo [t] []) = {d. in_subtree repo t d}"
proof
  show "set (collect repo [t] []) \<subseteq> {d. in_subtree repo t d}"
    using collect_sound [of repo "[t]" "[]"] by auto
next
  have closed: "(\<forall>w \<in> set [t]. find_folder repo w \<noteq> None \<longrightarrow> w \<in> set (collect repo [t] []))
       \<and> (\<forall>s \<in> set (collect repo [t] []). \<forall>c \<in> set (child_ids repo s).
             c \<in> set (collect repo [t] []))"
    by (rule collect_closed) simp
  have "d \<in> set (collect repo [t] [])" if "in_subtree repo t d" for d
    using that
  proof (induction rule: in_subtree.induct)
    case top
    from closed assms show ?case by simp
  next
    case (below p f)
    from below.hyps(2,3) have "folder_id f \<in> set (child_ids repo p)"
      by (auto simp: child_ids_def)
    with below.IH closed show ?case by blast
  qed
  then show "{d. in_subtree repo t d} \<subseteq> set (collect repo [t] [])"
    by auto
qed


subsection \<open>The transaction\<close>

lemma delete_rows_None_iff:
  "delete_rows fails rows repo = None \<longleftrightarrow> (\<exists>r \<in> set rows. fails r)"
  by (induction rows arbitrary: repo) auto

lemma delete_rows_result:
  "delete_rows fails rows repo = Some repo' \<Longrightarrow>
   repo_folders repo' = filter (\<lambda>f. FolderRow (folder_id f) \<notin> set rows) (repo_folders repo)
   \<and> repo_files repo' = filter (\<lambda>x. FileRow (file_id x) \<notin> set rows) (repo_files repo)"
proof (induction rows arbitrary: repo)
  case Nil
  then show ?case by simp
next
  case (Cons r rows)
  from Cons.prems have rest: "delete_rows fails rows (delete_row r repo) = Some repo'"
    by (simp split: if_splits)
  note ih = Cons.IH [OF rest]
  show ?case
  proof (cases r)
    case (FileRow i)
    have "filter (\<lambda>x. FileRow (file_id x) \<notin> set rows) (filter (\<lambda>x. file_id x \<noteq> i) (repo_files repo))
          = filter (\<lambda>x. FileRow (file_id x) \<notin> set (r # rows)) (repo_files repo)"
      unfolding filter_filter FileRow by (rule filter_cong) auto
    with ih FileRow show ?thesis by simp
  next
    case (FolderRow i)
    have "filter (\<lambda>f. FolderRow (folder_id f) \<notin> set rows)
            (filter (\<lambda>f. folder_id f \<noteq> i) (repo_folders repo))
          = filter (\<lambda>f. FolderRow (folder_id f) \<notin> set (r # rows)) (repo_folders repo)"
      unfolding filter_filter FolderRow by (rule filter_cong) auto
    with ih FolderRow show ?thesis by simp
  qed
qed

text \<open>With unique file ids, the file rows of the subtree select exactly its files.\<close>

lemma file_rows_select:
  assumes "distinct (map file_id fs)" and "y \<in> set fs"
  shows "FileRow (file_id y) \<in> set (map (FileRow \<circ> file_id) (filter (\<lambda>x. file_folder x \<in> S) fs))
         \<longleftrightarrow> file_folder y \<in> S"
proof
  assume "FileRow (file_id y) \<in> set (map (FileRow \<circ> file_id) (filter (\<lambda>x. file_folder x \<in> S) fs))"
  then obtain x where x: "x \<in> set fs" "file_folder x \<in> S" "file_id x = file_id y"
    by auto
  from assms(1) have "inj_on file_id (set fs)"
    by (simp add: distinct_map)
  with x(1,3) assms(2) have "x = y"
    by (auto dest: inj_onD)
  with x(2) show "file_folder y \<in> S" by simp
next
  assume "file_folder y \<in> S"
  with assms(2) show "FileRow (file_id y) \<in> set (map (FileRow \<circ> file_id) (filter (\<lambda>x. file_folder x \<in> S) fs))"
    by auto
qed

lemma cascade_delete_success:
  assumes d: "distinct (map file_id (repo_files repo))"
    and run: "cascade_delete fails repo fid = (Inr u, repo')"
  shows "repo_folders repo' = filter (\<lambda>f. \<not> in_subtree repo fid (folder_id f)) (repo_folders repo)
         \<and> repo_files repo' = filter (\<lambda>x. \<not> in_subtree repo fid (file_folder x)) (repo_files repo)"
proof -
  let ?S = "collect repo [fid] []"
  let ?rows = "map (FileRow \<circ> file_id) (filter (\<lambda>x. file_folder x \<in> set ?S) (repo_files repo))
               @ map FolderRow ?S"
  from run obtain f where f: "find_folder repo fid = Some f"
    by (auto simp: cascade_delete_def split: option.splits)
  from run f have rows: "delete_rows fails ?rows repo = Some repo'"
    by (auto simp: cascade_delete_def Let_def split: option.splits if_splits)
  from f have S: "set ?S = {d. in_subtree repo fid d}"
    by (intro collect_subtree) simp
  note res = delete_rows_result [OF rows]
  have "filter (\<lambda>f. FolderRow (folder_id f) \<notin> set ?rows) (repo_folders repo)
        = filter (\<lambda>f. \<not> in_subtree repo fid (folder_id f)) (repo_folders repo)"
  proof (rule filter_cong [OF refl])
    fix g assume "g \<in> set (repo_folders repo)"
    have "FolderRow (folder_id g) \<in> set ?rows \<longleftrightarrow> folder_id g \<in> set ?S"
      by auto
    with S show "(FolderRow (folder_id g) \<notin> set ?rows) = (\<not> in_subtree repo fid (folder_id g))"
      by simp
  qed
  moreover have "filter (\<lambda>x. FileRow (file_id x) \<notin> set ?rows) (repo_files repo)
        = filter (\<lambda>x. \<not> in_subtree repo fid (file_folder x)) (repo_files repo)"
  proof (rule filter_cong [OF refl])
    fix y assume y: "y \<in> set (repo_files repo)"
    have "FileRow (file_id y) \<in> set ?rows
          \<longleftrightarrow> FileRow (file_id y) \<in> set (map (FileRow \<circ> file_id)
                 (filter (\<lambda>x. file_folder x \<in> set ?S) (repo_files repo)))"
      by auto
    also have "\<dots> \<longleftrightarrow> file_folder y \<in> set ?S"
      by (rule file_rows_select [OF d y])
    finally show "(FileRow (file_id y) \<notin> set ?rows) = (\<not> in_subtree repo fid (file_folder y))"
      using S by simp
  qed
  ultimately show ?thesis
    using res by simp
qed

lemma cascade_delete_failure: "cascade_delete fails repo fid = (Inl e, repo') \<Longrightarrow> repo' = repo"
  by (auto simp: cascade_delete_def Let_def split: option.splits if_splits)

lemma cascade_delete_succeeds:
  assumes "find_folder repo fid = Some f" "folder_parent f \<noteq> None" "\<And>r. \<not> fails r"
  shows "fst (cascade_delete fails repo fid) = Inr ()"
proof -
  have "delete_rows fails rows repo \<noteq> None" for rows
    using assms(3) by (simp add: delete_rows_None_iff)
  with assms(1,2) show ?thesis
    by (auto simp: cascade_delete_def Let_def split: option.splits)
qed

text \<open>
  C2. A folder delete either fails and leaves the repository exactly as it was, at
  whichever row the repository failed, or succeeds and removes exactly the rows of the
  subtree: every folder in the subtree of the deleted folder (the folder included) and
  every file in one of them, and nothing else. It does succeed for an existing folder that
  is not a root when no row fails. File ids are unique.
\<close>

theorem cascade_delete_all_or_nothing:
  assumes "distinct (map file_id (repo_files repo))"
  shows "(case cascade_delete fails repo fid of
            (Inl e, repo') \<Rightarrow> repo' = repo
          | (Inr u, repo') \<Rightarrow>
              repo_folders repo'
                = filter (\<lambda>f. \<not> in_subtree repo fid (folder_id f)) (repo_folders repo)
              \<and> repo_files repo'
                = filter (\<lambda>x. \<not> in_subtree repo fid (file_folder x)) (repo_files repo))
         \<and> ((\<exists>f. find_folder repo fid = Some f \<and> folder_parent f \<noteq> None) \<and> (\<forall>r. \<not> fails r)
              \<longrightarrow> fst (cascade_delete fails repo fid) = Inr ())"
proof -
  obtain res repo' where run: "cascade_delete fails repo fid = (res, repo')"
    by (cases "cascade_delete fails repo fid")
  have 1: "(case cascade_delete fails repo fid of
            (Inl e, repo') \<Rightarrow> repo' = repo
          | (Inr u, repo') \<Rightarrow>
              repo_folders repo'
                = filter (\<lambda>f. \<not> in_subtree repo fid (folder_id f)) (repo_folders repo)
              \<and> repo_files repo'
                = filter (\<lambda>x. \<not> in_subtree repo fid (file_folder x)) (repo_files repo))"
  proof (cases res)
    case (Inl e)
    with run cascade_delete_failure [of fails repo fid e repo'] show ?thesis by simp
  next
    case (Inr u)
    with run cascade_delete_success [OF assms, of fails fid u repo'] show ?thesis by simp
  qed
  have 2: "fst (cascade_delete fails repo fid) = Inr ()"
    if "\<exists>f. find_folder repo fid = Some f \<and> folder_parent f \<noteq> None" "\<forall>r. \<not> fails r"
    using that cascade_delete_succeeds [of repo fid _ fails] by blast
  from 1 2 show ?thesis by blast
qed

lemma collect_scenario: "collect scenario [2] [] = [3, 2]"
proof -
  have c2: "child_ids scenario 2 = [3]" and c3: "child_ids scenario 3 = []"
    by (simp_all add: child_ids_def scenario_def folder_R_def folder_A_def folder_B_def)
  have "collect scenario [2] [] = collect scenario [3] [2]"
    by (simp add: collect.simps(2) [of scenario 2 "[]" "[]"] find_folder_scenario c2)
  also have "\<dots> = collect scenario [] [3, 2]"
    by (simp add: collect.simps(2) [of scenario 3 "[]" "[2]"] find_folder_scenario c3)
  also have "\<dots> = [3, 2]"
    by (simp add: collect.simps(1))
  finally show ?thesis .
qed

lemma cascade_delete_scenario:
  "cascade_delete (\<lambda>r. False) scenario 2
   = (Inr (), \<lparr>repo_folders = [folder_R], repo_files = []\<rparr>)"
  by (simp add: cascade_delete_def find_folder_scenario folder_parent_scenario collect_scenario)
     (simp add: scenario_def folder_R_def folder_A_def folder_B_def doc_pdf_def)

lemma cascade_delete_scenario_failing:
  "cascade_delete (\<lambda>r. r = FolderRow 2) scenario 2 = (Inl TransactionFailed, scenario)"
  by (simp add: cascade_delete_def find_folder_scenario folder_parent_scenario collect_scenario)
     (simp add: scenario_def folder_R_def folder_A_def folder_B_def doc_pdf_def)

theorem cascade_delete_all_or_nothing_witness:
  "distinct (map file_id (repo_files scenario))
   \<and> cascade_delete (\<lambda>r. False) scenario 2
       = (Inr (), \<lparr>repo_folders = [folder_R], repo_files = []\<rparr>)
   \<and> filter (\<lambda>f. \<not> in_subtree scenario 2 (folder_id f)) (repo_folders scenario) = [folder_R]
   \<and> filter (\<lambda>x. \<not> in_subtree scenario 2 (file_folder x)) (repo_files scenario) = []
   \<and> cascade_delete (\<lambda>r. r = FolderRow 2) scenario 2 = (Inl TransactionFailed, scenario)"
proof -
  have d: "distinct (map file_id (repo_files scenario))"
    by (simp add: scenario_def)
  from cascade_delete_all_or_nothing [OF d, where fails = "\<lambda>r. False" and fid = 2]
  have "filter (\<lambda>f. \<not> in_subtree scenario 2 (folder_id f)) (repo_folders scenario) = [folder_R]
        \<and> filter (\<lambda>x. \<not> in_subtree scenario 2 (file_folder x)) (repo_files scenario) = []"
    by (simp add: cascade_delete_scenario)
  with d cascade_delete_scenario cascade_delete_scenario_failing show ?thesis
    by simp
qed


section \<open>Listing a folder\<close>

lemma length_page_of: "length (page_of p sz xs) \<le> min sz (length xs)"
  by (simp add: page_of_def)

lemma list_children_fields:
  assumes "list_children stamp repo fid fpage fsize flpage flsize = Inr c"
  shows "fc_id c = fid"
    and "total_folders c = int (length (child_folders repo fid))"
    and "total_files c = int (length (child_files repo fid))"
    and "folders c = map (folder_summary stamp)
                       (page_of (nat fpage) (nat fsize) (child_folders repo fid))"
    and "files c = map (file_item stamp)
                     (page_of (nat flpage) (nat flsize) (child_files repo fid))"
    and "folder_page c = fpage" "folder_page_size c = fsize"
    and "file_page c = flpage" "file_page_size c = flsize"
  using assms
  by (auto simp: list_children_def find_folder_id split: option.splits if_splits sum.splits)

text \<open>A well-formed request for an existing folder of finite depth is answered.\<close>

lemma list_children_answers:
  assumes "at_depth repo fid n r" "1 \<le> fpage" "1 \<le> fsize" "1 \<le> flpage" "1 \<le> flsize"
  shows "\<exists>c. list_children stamp repo fid fpage fsize flpage flsize = Inr c"
proof -
  from breadcrumbs_of_at_depth [OF assms(1)]
  obtain crumbs where "breadcrumbs_of repo fid = Inr crumbs" "find_folder repo fid = Some (last crumbs)"
    by blast
  with assms(2-5) show ?thesis
    by (simp add: list_children_def)
qed

text \<open>
  C3. Every listing response has exactly the eleven members id, name, breadcrumbs,
  folders, files, total_folders, total_files, folder_page, folder_page_size, file_page
  and file_page_size. The two totals count all folders and all files directly under the
  listed folder, whatever page was asked for; the pages shown are no longer than their
  page size; and the four paging members echo the request.
\<close>

theorem list_children_response_shape:
  assumes "list_children stamp repo fid fpage fsize flpage flsize = Inr c"
  shows "map fst (FolderContents_json c)
           = [''id'', ''name'', ''breadcrumbs'', ''folders'', ''files'', ''total_folders'',
              ''total_files'', ''folder_page'', ''folder_page_size'', ''file_page'',
              ''file_page_size'']
         \<and> map_of (FolderContents_json c) ''total_folders''
             = Some (JNumber (int (length (filter (\<lambda>f. folder_parent f = Some fid)
                                             (repo_folders repo)))))
         \<and> map_of (FolderContents_json c) ''total_files''
             = Some (JNumber (int (length (filter (\<lambda>x. file_folder x = fid)
                                             (repo_files repo)))))
         \<and> total_folders c = int (length (filter (\<lambda>f. folder_parent f = Some fid)
                                             (repo_folders repo)))
         \<and> total_files c = int (length (filter (\<lambda>x. file_folder x = fid) (repo_files repo)))
         \<and> int (length (folders c)) \<le> min fsize (total_folders c)
         \<and> int (length (files c)) \<le> min flsize (total_files c)
         \<and> folder_page c = fpage \<and> folder_page_size c = fsize
         \<and> file_page c = flpage \<and> file_page_size c = flsize"
proof -
  note f = list_children_fields [OF assms]
  from assms have pos: "1 \<le> fsize" "1 \<le> flsize"
    by (auto simp: list_children_def split: option.splits if_splits)
  have keys: "map fst (FolderContents_json c)
           = [''id'', ''name'', ''breadcrumbs'', ''folders'', ''files'', ''total_folders'',
              ''total_files'', ''folder_page'', ''folder_page_size'', ''file_page'',
              ''file_page_size'']"
    by (simp add: FolderContents_json_def)
  have tf: "total_folders c = int (length (filter (\<lambda>f. folder_parent f = Some fid)
                                             (repo_folders repo)))"
    by (simp add: f(2) child_folders_def)
  have tl: "total_files c = int (length (filter (\<lambda>x. file_folder x = fid) (repo_files repo)))"
    by (simp add: f(3) child_files_def)
  have jf: "map_of (FolderContents_json c) ''total_folders'' = Some (JNumber (total_folders c))"
    by (simp add: FolderContents_json_def)
  have jl: "map_of (FolderContents_json c) ''total_files'' = Some (JNumber (total_files c))"
    by (simp add: FolderContents_json_def)
  have "length (folders c) \<le> min (nat fsize) (length (child_folders repo fid))"
    by (simp add: f(4) page_of_def)
  with pos(1) have pf: "int (length (folders c)) \<le> min fsize (total_folders c)"
    unfolding f(2) by linarith
  have "length (files c) \<le> min (nat flsize) (length (child_files repo fid))"
    by (simp add: f(5) page_of_def)
  with pos(2) have pl: "int (length (files c)) \<le> min flsize (total_files c)"
    unfolding f(3) by linarith
  from keys jf jl tf tl pf pl f(6-9) show ?thesis
    by simp
qed

text \<open>The second folder page of the scenario's root: no folder is shown, the total is
  still 1.\<close>

lemma list_children_scenario:
  "list_children (\<lambda>t. []) scenario 1 2 50 1 50
   = Inr \<lparr>fc_id = 1, fc_name = js ''R'',
          breadcrumbs = [\<lparr>fs_id = 1, fs_name = js ''R'', fs_created_at = []\<rparr>],
          folders = [], files = [], total_folders = 1, total_files = 0,
          folder_page = 2, folder_page_size = 50, file_page = 1, file_page_size = 50\<rparr>"
proof -
  have w: "walk_up scenario [] 1 = Inr [folder_R]"
    by (simp add: walk_up.simps [of scenario "[]" 1] find_folder_scenario
        folder_parent_scenario)
  have cf: "child_folders scenario 1 = [folder_A]"
    by (simp add: child_folders_def scenario_def folder_R_def folder_A_def folder_B_def)
  have cl: "child_files scenario 1 = []"
    by (simp add: child_files_def scenario_def doc_pdf_def)
  show ?thesis
    by (simp add: list_children_def find_folder_scenario breadcrumbs_of_def w cf cl page_of_def
        folder_summary_def)
       (simp add: folder_R_def)
qed

theorem list_children_response_shape_witness:
  "(\<exists>c. list_children (\<lambda>t. []) scenario 1 2 50 1 50 = Inr c
        \<and> map fst (FolderContents_json c)
           = [''id'', ''name'', ''breadcrumbs'', ''folders'', ''files'', ''total_folders'',
              ''total_files'', ''folder_page'', ''folder_page_size'', ''file_page'',
              ''file_page_size'']
        \<and> folders c = [] \<and> total_folders c = 1 \<and> total_files c = 0
        \<and> folder_page c = 2 \<and> file_page c = 1)"
proof -
  obtain c where c: "list_children (\<lambda>t. []) scenario 1 2 50 1 50 = Inr c"
    and v: "folders c = []" "total_folders c = 1" "total_files c = 0"
    using list_children_scenario by simp
  from list_children_response_shape [OF c] v c show ?thesis
    by auto
qed


end
